theory Spec2Isabelle
  imports Complex_Main
begin

section \<open>The cost model of OpenCalc: data\<close>

text \<open>
  The three model classes of \<^verbatim>\<open>src/models\<close> are Python dataclasses whose instances
  refer to each other (children, parent, schedule, cost value).  They are embedded as
  records living in a store: a reference is an address, an attribute that holds an
  object holds its address, and every method takes the store and returns the new one.

  Python's \<^verbatim>\<open>float\<close> is idealised as \<^typ>\<open>real\<close>: the products and sums that make up the
  subtotals are exact.  The VAT amount and the total of a schedule are the exception:
  there the operations are rounded as IEEE doubles, because the rounding decides what
  can be said about them.  Infinities, subnormal numbers, the sign of zero and NaN are
  outside this development.
\<close>

type_synonym ref = nat

datatype QuantityType = COUNT | LENGTH | AREA | VOLUME | WEIGHT | TIME | NUMBER

datatype ScheduleType =
  BUDGET | COSTPLAN | ESTIMATE | TENDER
  | PRICEDBILLOFQUANTITIES | UNPRICEDBILLOFQUANTITIES | SCHEDULEOFRATES

datatype ScheduleStatus = DRAFT | APPROVED | SUBMITTED | REJECTED

text \<open>A \<^verbatim>\<open>datetime.date\<close>: year, month, day.\<close>

type_synonym date = "nat \<times> nat \<times> nat"

text \<open>
  \<^verbatim>\<open>cost_value.py\<close>, class \<^verbatim>\<open>CostValue\<close>.  The two \<^verbatim>\<open>Optional[object]\<close> attributes
  hold handles of the IFC library.
\<close>

record CostValue =
  unit_price :: real
  quantity :: real
  quantity_type :: QuantityType
  category :: string
  value_description :: string
  ifc_cost_value :: "ref option"
  ifc_quantity :: "ref option"

text \<open>\<^verbatim>\<open>cost_item.py\<close>, class \<^verbatim>\<open>CostItem\<close>, the fields in declaration order.\<close>

record CostItem =
  name :: string
  html_name :: string
  identification :: string
  sfb_code :: string
  description :: string
  is_text_only :: bool
  cost_value :: ref
  children :: "ref list"
  parent :: "ref option"
  schedule :: "ref option"
  ifc_cost_item :: "ref option"

text \<open>\<^verbatim>\<open>cost_schedule.py\<close>, class \<^verbatim>\<open>CostSchedule\<close>.\<close>

record CostSchedule =
  schedule_name :: string
  schedule_description :: string
  schedule_type :: ScheduleType
  status :: ScheduleStatus
  created_date :: "date option"
  update_date :: "date option"
  submitted_on :: "date option"
  items :: "ref list"
  vat_rate :: real
  ifc_cost_schedule :: "ref option"

text \<open>
  The store.  \<open>next_ref\<close> is the allocation counter: a constructor call takes the
  address \<open>next_ref\<close> and increments it, which is Python's guarantee that a new
  object is distinct from every live one.
\<close>

record heap =
  item_store :: "ref \<rightharpoonup> CostItem"
  value_store :: "ref \<rightharpoonup> CostValue"
  schedule_store :: "ref \<rightharpoonup> CostSchedule"
  next_ref :: ref

text \<open>
  What a call can end with instead of a value.  \<open>RecursionError\<close> is Python's
  exception of that name: the recursive functions below carry a depth budget and
  raise it when the budget is used up.  \<open>ValueError\<close> is raised by \<^verbatim>\<open>list.remove\<close>
  and \<^verbatim>\<open>list.index\<close> on a missing element.  \<open>Diverges\<close> stands for a \<^verbatim>\<open>while\<close> loop
  that has not ended within its budget.  \<open>InvalidRef\<close> is a read through an address
  that holds no object; Python has no such state, the store of the model does.
  \<open>OutOfRange\<close> is a rounded operation whose result is not a normal double (Python
  gives an infinity or a subnormal number there, which the model does not represent).
\<close>

datatype error = RecursionError | ValueError | Diverges | InvalidRef | OutOfRange

section \<open>Totals\<close>

text \<open>\<^verbatim>\<open>CostValue.total\<close>: \<^verbatim>\<open>return self.quantity * self.unit_price\<close>.\<close>

definition CostValue_total :: "CostValue \<Rightarrow> real" where
  "CostValue_total cv = quantity cv * unit_price cv"

text \<open>
  \<^verbatim>\<open>CostItem.subtotal\<close>:
  \<^verbatim>\<open>
    if self.is_text_only: return 0.0
    if self.is_leaf: return self.cost_value.total
    return sum(child.subtotal for child in self.children)
  \<close>
  \<open>sum_subtotals\<close> is the builtin \<^verbatim>\<open>sum\<close> over the generator: the accumulator starts
  at 0 and the children are added from left to right.  The first argument is the
  recursion depth still available.
\<close>

fun subtotal :: "nat \<Rightarrow> heap \<Rightarrow> ref \<Rightarrow> error + real"
  and sum_subtotals :: "nat \<Rightarrow> heap \<Rightarrow> real \<Rightarrow> ref list \<Rightarrow> error + real" where
  "subtotal 0 h r = Inl RecursionError"
| "subtotal (Suc n) h r =
     (case item_store h r of
        None \<Rightarrow> Inl InvalidRef
      | Some it \<Rightarrow>
          if is_text_only it then Inr 0
          else if length (children it) = 0 then
            (case value_store h (cost_value it) of
               None \<Rightarrow> Inl InvalidRef
             | Some cv \<Rightarrow> Inr (CostValue_total cv))
          else sum_subtotals n h 0 (children it))"
| "sum_subtotals n h acc [] = Inr acc"
| "sum_subtotals n h acc (c # cs) =
     (case subtotal n h c of
        Inl e \<Rightarrow> Inl e
      | Inr v \<Rightarrow> sum_subtotals n h (acc + v) cs)"

text \<open>\<^verbatim>\<open>CostItem.total\<close>: \<^verbatim>\<open>return self.subtotal\<close>.\<close>

definition CostItem_total :: "nat \<Rightarrow> heap \<Rightarrow> ref \<Rightarrow> error + real" where
  "CostItem_total n h r = subtotal n h r"

section \<open>Cost trees\<close>

text \<open>
  The finite tree a cost item stands for: at each node the data that \<^verbatim>\<open>copy\<close>
  carries over, and the subtrees of the children in their order.
\<close>

record node_data =
  nd_name :: string
  nd_html_name :: string
  nd_identification :: string
  nd_sfb_code :: string
  nd_description :: string
  nd_is_text_only :: bool
  nd_unit_price :: real
  nd_quantity :: real
  nd_quantity_type :: QuantityType

datatype tree = Node node_data "tree list"

definition data_of :: "CostItem \<Rightarrow> CostValue \<Rightarrow> node_data" where
  "data_of it cv =
     \<lparr> nd_name = name it, nd_html_name = html_name it,
       nd_identification = identification it, nd_sfb_code = sfb_code it,
       nd_description = description it, nd_is_text_only = is_text_only it,
       nd_unit_price = unit_price cv, nd_quantity = quantity cv,
       nd_quantity_type = quantity_type cv \<rparr>"

text \<open>
  \<open>tree_on P h r t\<close>: in the store \<open>h\<close> the item at \<open>r\<close>, followed through
  \<open>children\<close>, is the tree \<open>t\<close>, and every item and cost value met on the way has an
  address that satisfies \<open>P\<close>.  Such an item has no cycle below it.
\<close>

fun tree_on :: "(ref \<Rightarrow> bool) \<Rightarrow> heap \<Rightarrow> ref \<Rightarrow> tree \<Rightarrow> bool"
  and trees_on :: "(ref \<Rightarrow> bool) \<Rightarrow> heap \<Rightarrow> ref list \<Rightarrow> tree list \<Rightarrow> bool" where
  "tree_on P h r (Node d ts) =
     (case item_store h r of
        None \<Rightarrow> False
      | Some it \<Rightarrow>
          (case value_store h (cost_value it) of
             None \<Rightarrow> False
           | Some cv \<Rightarrow>
               P r \<and> P (cost_value it) \<and> d = data_of it cv
               \<and> trees_on P h (children it) ts))"
| "trees_on P h [] [] = True"
| "trees_on P h (r # rs) (t # ts) = (tree_on P h r t \<and> trees_on P h rs ts)"
| "trees_on P h [] (t # ts) = False"
| "trees_on P h (r # rs) [] = False"

definition tree_at :: "heap \<Rightarrow> ref \<Rightarrow> tree \<Rightarrow> bool" where
  "tree_at h r t = tree_on (\<lambda>a. True) h r t"

definition trees_at :: "heap \<Rightarrow> ref list \<Rightarrow> tree list \<Rightarrow> bool" where
  "trees_at h rs ts = trees_on (\<lambda>a. True) h rs ts"

fun height :: "tree \<Rightarrow> nat" where
  "height (Node d ts) = Suc (foldr max (map height ts) 0)"

text \<open>
  The aggregation rule in the words of the specification: 0 for a text-only item,
  quantity times unit price for a leaf, the sum over the children otherwise.
\<close>

fun spec_subtotal :: "tree \<Rightarrow> real" where
  "spec_subtotal (Node d ts) =
     (if nd_is_text_only d then 0
      else if ts = [] then nd_quantity d * nd_unit_price d
      else sum_list (map spec_subtotal ts))"

section \<open>Double arithmetic\<close>





section \<open>Schedule totals\<close>





section \<open>Flattening\<close>

text \<open>
  \<^verbatim>\<open>CostItem.get_all_descendants\<close>:
  \<^verbatim>\<open>
    descendants = []
    for child in self.children:
        descendants.append(child)
        descendants.extend(child.get_all_descendants())
    return descendants
  \<close>
\<close>

fun get_all_descendants :: "nat \<Rightarrow> heap \<Rightarrow> ref \<Rightarrow> error + ref list"
  and descendants_loop :: "nat \<Rightarrow> heap \<Rightarrow> ref list \<Rightarrow> ref list \<Rightarrow> error + ref list" where
  "get_all_descendants 0 h r = Inl RecursionError"
| "get_all_descendants (Suc n) h r =
     (case item_store h r of
        None \<Rightarrow> Inl InvalidRef
      | Some it \<Rightarrow> descendants_loop n h [] (children it))"
| "descendants_loop n h acc [] = Inr acc"
| "descendants_loop n h acc (c # cs) =
     (case get_all_descendants n h c of
        Inl e \<Rightarrow> Inl e
      | Inr ds \<Rightarrow> descendants_loop n h ((acc @ [c]) @ ds) cs)"

text \<open>
  \<^verbatim>\<open>CostSchedule.item_count\<close>:
  \<^verbatim>\<open>
    count = 0
    for item in self.items:
        count += 1 + len(item.get_all_descendants())
    return count
  \<close>
\<close>

fun item_count_loop :: "nat \<Rightarrow> heap \<Rightarrow> nat \<Rightarrow> ref list \<Rightarrow> error + nat" where
  "item_count_loop n h count [] = Inr count"
| "item_count_loop n h count (i # is) =
     (case get_all_descendants n h i of
        Inl e \<Rightarrow> Inl e
      | Inr ds \<Rightarrow> item_count_loop n h (count + (1 + length ds)) is)"

definition item_count :: "nat \<Rightarrow> heap \<Rightarrow> ref \<Rightarrow> error + nat" where
  "item_count n h s =
     (case schedule_store h s of
        None \<Rightarrow> Inl InvalidRef
      | Some sc \<Rightarrow> item_count_loop n h 0 (items sc))"

text \<open>
  \<^verbatim>\<open>CostSchedule.get_all_items\<close>:
  \<^verbatim>\<open>
    all_items = []
    for item in self.items:
        all_items.append(item)
        all_items.extend(item.get_all_descendants())
    return all_items
  \<close>
\<close>

fun get_all_items_loop :: "nat \<Rightarrow> heap \<Rightarrow> ref list \<Rightarrow> ref list \<Rightarrow> error + ref list" where
  "get_all_items_loop n h all_items [] = Inr all_items"
| "get_all_items_loop n h all_items (i # is) =
     (case get_all_descendants n h i of
        Inl e \<Rightarrow> Inl e
      | Inr ds \<Rightarrow> get_all_items_loop n h ((all_items @ [i]) @ ds) is)"

definition get_all_items :: "nat \<Rightarrow> heap \<Rightarrow> ref \<Rightarrow> error + ref list" where
  "get_all_items n h s =
     (case schedule_store h s of
        None \<Rightarrow> Inl InvalidRef
      | Some sc \<Rightarrow> get_all_items_loop n h [] (items sc))"

text \<open>The number of nodes of a tree.\<close>

fun tree_size :: "tree \<Rightarrow> nat" where
  "tree_size (Node d ts) = Suc (sum_list (map tree_size ts))"

section \<open>Equality of objects\<close>

text \<open>
  The three classes are declared with a bare \<^verbatim>\<open>@dataclass\<close>, so each gets the
  generated \<^verbatim>\<open>__eq__\<close>: two objects of the class are equal when their fields are,
  compared in declaration order up to the first pair that differs.  Inside lists and
  field tuples Python compares two operands with \<^verbatim>\<open>PyObject_RichCompareBool\<close>, which
  answers true for one and the same object before it calls \<^verbatim>\<open>__eq__\<close>.  An object and
  \<^verbatim>\<open>None\<close> are unequal.  \<^verbatim>\<open>list.__contains__\<close>, \<^verbatim>\<open>list.index\<close> and \<^verbatim>\<open>list.remove\<close> all
  use this comparison, not identity.

  The handles of the IFC library are compared as handles.
\<close>

fun conj_all :: "(error + bool) list \<Rightarrow> error + bool" where
  "conj_all [] = Inr True"
| "conj_all (Inl e # cs) = Inl e"
| "conj_all (Inr False # cs) = Inr False"
| "conj_all (Inr True # cs) = conj_all cs"

definition value_eq :: "heap \<Rightarrow> ref \<Rightarrow> ref \<Rightarrow> error + bool" where
  "value_eq h a b =
     (if a = b then Inr True
      else (case (value_store h a, value_store h b) of
              (Some x, Some y) \<Rightarrow>
                Inr (unit_price x = unit_price y \<and> quantity x = quantity y
                     \<and> quantity_type x = quantity_type y \<and> category x = category y
                     \<and> value_description x = value_description y
                     \<and> ifc_cost_value x = ifc_cost_value y
                     \<and> ifc_quantity x = ifc_quantity y)
            | _ \<Rightarrow> Inl InvalidRef))"

text \<open>
  \<open>item_eq\<close> is \<^verbatim>\<open>CostItem.__eq__\<close> on two distinct items, \<open>schedule_eq\<close> is
  \<^verbatim>\<open>CostSchedule.__eq__\<close> on two distinct schedules, and \<open>items_eq\<close> compares two lists
  of the same length element by element.  The first argument is the recursion depth
  still available.
\<close>

fun item_eq :: "nat \<Rightarrow> heap \<Rightarrow> ref \<Rightarrow> ref \<Rightarrow> error + bool"
  and items_eq :: "nat \<Rightarrow> heap \<Rightarrow> ref list \<Rightarrow> ref list \<Rightarrow> error + bool"
  and schedule_eq :: "nat \<Rightarrow> heap \<Rightarrow> ref \<Rightarrow> ref \<Rightarrow> error + bool" where
  "item_eq 0 h a b = Inl RecursionError"
| "item_eq (Suc n) h a b =
     (case (item_store h a, item_store h b) of
        (Some x, Some y) \<Rightarrow>
          conj_all
            [ Inr (name x = name y),
              Inr (html_name x = html_name y),
              Inr (identification x = identification y),
              Inr (sfb_code x = sfb_code y),
              Inr (description x = description y),
              Inr (is_text_only x = is_text_only y),
              value_eq h (cost_value x) (cost_value y),
              (if length (children x) \<noteq> length (children y) then Inr False
               else items_eq n h (children x) (children y)),
              (case (parent x, parent y) of
                 (None, None) \<Rightarrow> Inr True
               | (Some p, Some q) \<Rightarrow> if p = q then Inr True else item_eq n h p q
               | _ \<Rightarrow> Inr False),
              (case (schedule x, schedule y) of
                 (None, None) \<Rightarrow> Inr True
               | (Some s, Some t) \<Rightarrow> if s = t then Inr True else schedule_eq n h s t
               | _ \<Rightarrow> Inr False),
              Inr (ifc_cost_item x = ifc_cost_item y) ]
      | _ \<Rightarrow> Inl InvalidRef)"
| "items_eq n h [] [] = Inr True"
| "items_eq n h [] (y # ys) = Inr False"
| "items_eq n h (x # xs) [] = Inr False"
| "items_eq n h (x # xs) (y # ys) =
     (if x = y then items_eq n h xs ys
      else (case item_eq n h x y of
              Inl e \<Rightarrow> Inl e
            | Inr False \<Rightarrow> Inr False
            | Inr True \<Rightarrow> items_eq n h xs ys))"
| "schedule_eq 0 h a b = Inl RecursionError"
| "schedule_eq (Suc n) h a b =
     (case (schedule_store h a, schedule_store h b) of
        (Some x, Some y) \<Rightarrow>
          conj_all
            [ Inr (schedule_name x = schedule_name y),
              Inr (schedule_description x = schedule_description y),
              Inr (schedule_type x = schedule_type y),
              Inr (status x = status y),
              Inr (created_date x = created_date y),
              Inr (update_date x = update_date y),
              Inr (submitted_on x = submitted_on y),
              (if length (items x) \<noteq> length (items y) then Inr False
               else items_eq n h (items x) (items y)),
              Inr (vat_rate x = vat_rate y),
              Inr (ifc_cost_schedule x = ifc_cost_schedule y) ]
      | _ \<Rightarrow> Inl InvalidRef)"

text \<open>\<^verbatim>\<open>PyObject_RichCompareBool(a, b, Py_EQ)\<close> on two cost items.\<close>

definition rich_eq :: "nat \<Rightarrow> heap \<Rightarrow> ref \<Rightarrow> ref \<Rightarrow> error + bool" where
  "rich_eq n h a b = (if a = b then Inr True else item_eq n h a b)"

section \<open>Python lists of items\<close>

text \<open>\<^verbatim>\<open>x in xs\<close>.\<close>

fun list_contains :: "nat \<Rightarrow> heap \<Rightarrow> ref list \<Rightarrow> ref \<Rightarrow> error + bool" where
  "list_contains n h [] x = Inr False"
| "list_contains n h (e # es) x =
     (case rich_eq n h e x of
        Inl err \<Rightarrow> Inl err
      | Inr True \<Rightarrow> Inr True
      | Inr False \<Rightarrow> list_contains n h es x)"

text \<open>\<^verbatim>\<open>xs.index(x)\<close>: the first position whose element equals \<open>x\<close>, or \<^verbatim>\<open>ValueError\<close>.\<close>

fun list_index :: "nat \<Rightarrow> heap \<Rightarrow> ref list \<Rightarrow> ref \<Rightarrow> error + nat" where
  "list_index n h [] x = Inl ValueError"
| "list_index n h (e # es) x =
     (case rich_eq n h e x of
        Inl err \<Rightarrow> Inl err
      | Inr True \<Rightarrow> Inr 0
      | Inr False \<Rightarrow>
          (case list_index n h es x of
             Inl err \<Rightarrow> Inl err
           | Inr i \<Rightarrow> Inr (Suc i)))"

text \<open>\<^verbatim>\<open>xs.remove(x)\<close>: deletes the first element that equals \<open>x\<close>, or \<^verbatim>\<open>ValueError\<close>.\<close>

definition list_remove :: "nat \<Rightarrow> heap \<Rightarrow> ref list \<Rightarrow> ref \<Rightarrow> error + ref list" where
  "list_remove n h xs x =
     (case list_index n h xs x of
        Inl err \<Rightarrow> Inl err
      | Inr i \<Rightarrow> Inr (take i xs @ drop (Suc i) xs))"

text \<open>
  \<^verbatim>\<open>xs.insert(i, x)\<close>: a negative index counts from the end, and an index outside
  the list is clamped to its ends.
\<close>

definition list_insert :: "'a list \<Rightarrow> int \<Rightarrow> 'a \<Rightarrow> 'a list" where
  "list_insert xs i x =
     (let n = int (length xs);
          j = (if i < 0 then max 0 (i + n) else min i n)
      in take (nat j) xs @ [x] @ drop (nat j) xs)"

section \<open>Attaching and detaching\<close>

definition upd_item :: "heap \<Rightarrow> ref \<Rightarrow> (CostItem \<Rightarrow> CostItem) \<Rightarrow> heap" where
  "upd_item h r f =
     (case item_store h r of
        None \<Rightarrow> h
      | Some it \<Rightarrow> h\<lparr>item_store := (item_store h)(r \<mapsto> f it)\<rparr>)"

definition upd_schedule :: "heap \<Rightarrow> ref \<Rightarrow> (CostSchedule \<Rightarrow> CostSchedule) \<Rightarrow> heap" where
  "upd_schedule h s f =
     (case schedule_store h s of
        None \<Rightarrow> h
      | Some sc \<Rightarrow> h\<lparr>schedule_store := (schedule_store h)(s \<mapsto> f sc)\<rparr>)"

definition schedule_of :: "heap \<Rightarrow> ref \<Rightarrow> ref option" where
  "schedule_of h r = (case item_store h r of None \<Rightarrow> None | Some it \<Rightarrow> schedule it)"

definition parent_of :: "heap \<Rightarrow> ref \<Rightarrow> ref option" where
  "parent_of h r = (case item_store h r of None \<Rightarrow> None | Some it \<Rightarrow> parent it)"

definition children_of :: "heap \<Rightarrow> ref \<Rightarrow> ref list" where
  "children_of h r = (case item_store h r of None \<Rightarrow> [] | Some it \<Rightarrow> children it)"

definition items_of :: "heap \<Rightarrow> ref \<Rightarrow> ref list" where
  "items_of h s = (case schedule_store h s of None \<Rightarrow> [] | Some sc \<Rightarrow> items sc)"

text \<open>
  \<^verbatim>\<open>CostItem.add_child\<close>:
  \<^verbatim>\<open>
    child.parent = self
    child.schedule = self.schedule
    self.children.append(child)
    return child
  \<close>
  The three assignments are applied one after the other, each to the store the
  previous one left.
\<close>

definition add_child :: "heap \<Rightarrow> ref \<Rightarrow> ref \<Rightarrow> error + (ref \<times> heap)" where
  "add_child h self child =
     (if item_store h self = None \<or> item_store h child = None then Inl InvalidRef
      else
        let h1 = upd_item h child (\<lambda>c. c\<lparr>parent := Some self\<rparr>);
            h2 = upd_item h1 child (\<lambda>c. c\<lparr>schedule := schedule_of h1 self\<rparr>);
            h3 = upd_item h2 self (\<lambda>s. s\<lparr>children := children s @ [child]\<rparr>)
        in Inr (child, h3))"

text \<open>\<^verbatim>\<open>CostItem.insert_child\<close>: as \<^verbatim>\<open>add_child\<close>, with \<^verbatim>\<open>self.children.insert(index, child)\<close>.\<close>

definition insert_child :: "heap \<Rightarrow> ref \<Rightarrow> int \<Rightarrow> ref \<Rightarrow> error + (ref \<times> heap)" where
  "insert_child h self index child =
     (if item_store h self = None \<or> item_store h child = None then Inl InvalidRef
      else
        let h1 = upd_item h child (\<lambda>c. c\<lparr>parent := Some self\<rparr>);
            h2 = upd_item h1 child (\<lambda>c. c\<lparr>schedule := schedule_of h1 self\<rparr>);
            h3 = upd_item h2 self (\<lambda>s. s\<lparr>children := list_insert (children s) index child\<rparr>)
        in Inr (child, h3))"

text \<open>
  \<^verbatim>\<open>CostItem.remove_child\<close>:
  \<^verbatim>\<open>
    if child in self.children:
        child.parent = None
        child.schedule = None
        self.children.remove(child)
        return True
    return False
  \<close>
  An exception ends the call; the store it leaves behind is not part of the result.
\<close>

definition remove_child :: "nat \<Rightarrow> heap \<Rightarrow> ref \<Rightarrow> ref \<Rightarrow> error + (bool \<times> heap)" where
  "remove_child n h self child =
     (if item_store h self = None \<or> item_store h child = None then Inl InvalidRef
      else
        (case list_contains n h (children_of h self) child of
           Inl e \<Rightarrow> Inl e
         | Inr False \<Rightarrow> Inr (False, h)
         | Inr True \<Rightarrow>
             let h1 = upd_item h child (\<lambda>c. c\<lparr>parent := None\<rparr>);
                 h2 = upd_item h1 child (\<lambda>c. c\<lparr>schedule := None\<rparr>)
             in (case list_remove n h2 (children_of h2 self) child of
                   Inl e \<Rightarrow> Inl e
                 | Inr cs \<Rightarrow> Inr (True, upd_item h2 self (\<lambda>s. s\<lparr>children := cs\<rparr>)))))"

text \<open>
  \<^verbatim>\<open>CostItem.get_child_index\<close>:
  \<^verbatim>\<open>
    try:
        return self.children.index(child)
    except ValueError:
        return -1
  \<close>
\<close>

definition get_child_index :: "nat \<Rightarrow> heap \<Rightarrow> ref \<Rightarrow> ref \<Rightarrow> error + int" where
  "get_child_index n h self child =
     (case list_index n h (children_of h self) child of
        Inl ValueError \<Rightarrow> Inr (- 1)
      | Inl e \<Rightarrow> Inl e
      | Inr i \<Rightarrow> Inr (int i))"

text \<open>
  \<^verbatim>\<open>CostItem.move_up\<close>:
  \<^verbatim>\<open>
    if not self.parent: return False
    index = self.parent.get_child_index(self)
    if index <= 0: return False
    self.parent.children.remove(self)
    self.parent.children.insert(index - 1, self)
    return True
  \<close>
  A cost item is always true in a condition (the class defines neither \<^verbatim>\<open>__bool__\<close>
  nor \<^verbatim>\<open>__len__\<close>), so \<^verbatim>\<open>not self.parent\<close> holds exactly for \<^verbatim>\<open>None\<close>.
\<close>

definition move_up :: "nat \<Rightarrow> heap \<Rightarrow> ref \<Rightarrow> error + (bool \<times> heap)" where
  "move_up n h self =
     (case item_store h self of
        None \<Rightarrow> Inl InvalidRef
      | Some s \<Rightarrow>
          (case parent s of
             None \<Rightarrow> Inr (False, h)
           | Some p \<Rightarrow>
               (case get_child_index n h p self of
                  Inl e \<Rightarrow> Inl e
                | Inr index \<Rightarrow>
                    if index \<le> 0 then Inr (False, h)
                    else
                      (case list_remove n h (children_of h p) self of
                         Inl e \<Rightarrow> Inl e
                       | Inr cs \<Rightarrow>
                           Inr (True,
                                upd_item h p
                                  (\<lambda>q. q\<lparr>children := list_insert cs (index - 1) self\<rparr>))))))"

text \<open>
  \<^verbatim>\<open>CostItem.move_down\<close>:
  \<^verbatim>\<open>
    if not self.parent: return False
    index = self.parent.get_child_index(self)
    if index < 0 or index >= len(self.parent.children) - 1: return False
    self.parent.children.remove(self)
    self.parent.children.insert(index + 1, self)
    return True
  \<close>
\<close>

definition move_down :: "nat \<Rightarrow> heap \<Rightarrow> ref \<Rightarrow> error + (bool \<times> heap)" where
  "move_down n h self =
     (case item_store h self of
        None \<Rightarrow> Inl InvalidRef
      | Some s \<Rightarrow>
          (case parent s of
             None \<Rightarrow> Inr (False, h)
           | Some p \<Rightarrow>
               (case get_child_index n h p self of
                  Inl e \<Rightarrow> Inl e
                | Inr index \<Rightarrow>
                    if index < 0 \<or> index \<ge> int (length (children_of h p)) - 1
                    then Inr (False, h)
                    else
                      (case list_remove n h (children_of h p) self of
                         Inl e \<Rightarrow> Inl e
                       | Inr cs \<Rightarrow>
                           Inr (True,
                                upd_item h p
                                  (\<lambda>q. q\<lparr>children := list_insert cs (index + 1) self\<rparr>))))))"

text \<open>
  \<^verbatim>\<open>CostSchedule.add_item\<close>:
  \<^verbatim>\<open>
    item.schedule = self
    item.parent = None
    self.items.append(item)
    return item
  \<close>
\<close>

definition add_item :: "heap \<Rightarrow> ref \<Rightarrow> ref \<Rightarrow> error + (ref \<times> heap)" where
  "add_item h self item =
     (if schedule_store h self = None \<or> item_store h item = None then Inl InvalidRef
      else
        let h1 = upd_item h item (\<lambda>c. c\<lparr>schedule := Some self\<rparr>);
            h2 = upd_item h1 item (\<lambda>c. c\<lparr>parent := None\<rparr>);
            h3 = upd_schedule h2 self (\<lambda>s. s\<lparr>items := items s @ [item]\<rparr>)
        in Inr (item, h3))"

text \<open>\<^verbatim>\<open>CostSchedule.insert_item\<close>: as \<^verbatim>\<open>add_item\<close>, with \<^verbatim>\<open>self.items.insert(index, item)\<close>.\<close>

definition insert_item :: "heap \<Rightarrow> ref \<Rightarrow> int \<Rightarrow> ref \<Rightarrow> error + (ref \<times> heap)" where
  "insert_item h self index item =
     (if schedule_store h self = None \<or> item_store h item = None then Inl InvalidRef
      else
        let h1 = upd_item h item (\<lambda>c. c\<lparr>schedule := Some self\<rparr>);
            h2 = upd_item h1 item (\<lambda>c. c\<lparr>parent := None\<rparr>);
            h3 = upd_schedule h2 self (\<lambda>s. s\<lparr>items := list_insert (items s) index item\<rparr>)
        in Inr (item, h3))"

text \<open>
  \<^verbatim>\<open>CostSchedule.remove_item\<close>:
  \<^verbatim>\<open>
    if item in self.items:
        item.schedule = None
        self.items.remove(item)
        return True
    return False
  \<close>
\<close>

definition remove_item :: "nat \<Rightarrow> heap \<Rightarrow> ref \<Rightarrow> ref \<Rightarrow> error + (bool \<times> heap)" where
  "remove_item n h self item =
     (if schedule_store h self = None \<or> item_store h item = None then Inl InvalidRef
      else
        (case list_contains n h (items_of h self) item of
           Inl e \<Rightarrow> Inl e
         | Inr False \<Rightarrow> Inr (False, h)
         | Inr True \<Rightarrow>
             let h1 = upd_item h item (\<lambda>c. c\<lparr>schedule := None\<rparr>)
             in (case list_remove n h1 (items_of h1 self) item of
                   Inl e \<Rightarrow> Inl e
                 | Inr cs \<Rightarrow> Inr (True, upd_schedule h1 self (\<lambda>s. s\<lparr>items := cs\<rparr>)))))"

section \<open>Constructors and copy\<close>

text \<open>
  \<^verbatim>\<open>CostValue(...)\<close> and \<^verbatim>\<open>CostItem(...)\<close>: the new object takes the next free address.
  \<^verbatim>\<open>CostItem.__post_init__\<close> then runs \<^verbatim>\<open>for child in self.children: child.parent = self\<close>.
\<close>

definition new_CostValue :: "heap \<Rightarrow> CostValue \<Rightarrow> ref \<times> heap" where
  "new_CostValue h cv =
     (next_ref h,
      h\<lparr>value_store := (value_store h)(next_ref h \<mapsto> cv), next_ref := Suc (next_ref h)\<rparr>)"

definition new_CostItem :: "heap \<Rightarrow> CostItem \<Rightarrow> ref \<times> heap" where
  "new_CostItem h it =
     (let r = next_ref h;
          h1 = h\<lparr>item_store := (item_store h)(r \<mapsto> it), next_ref := Suc r\<rparr>
      in (r, foldl (\<lambda>g c. upd_item g c (\<lambda>x. x\<lparr>parent := Some r\<rparr>)) h1 (children it)))"

text \<open>
  \<^verbatim>\<open>CostSchedule(...)\<close>, with \<^verbatim>\<open>CostSchedule.__post_init__\<close>:
  \<^verbatim>\<open>
    for item in self.items:
        item.schedule = self
        self._set_schedule_recursive(item)
  \<close>
  and \<^verbatim>\<open>CostSchedule._set_schedule_recursive\<close>:
  \<^verbatim>\<open>
    item.schedule = self
    for child in item.children:
        self._set_schedule_recursive(child)
  \<close>
\<close>

fun set_schedule_recursive :: "nat \<Rightarrow> heap \<Rightarrow> ref \<Rightarrow> ref \<Rightarrow> error + heap"
  and set_schedule_children :: "nat \<Rightarrow> heap \<Rightarrow> ref \<Rightarrow> ref list \<Rightarrow> error + heap" where
  "set_schedule_recursive 0 h self item = Inl RecursionError"
| "set_schedule_recursive (Suc n) h self item =
     (case item_store h item of
        None \<Rightarrow> Inl InvalidRef
      | Some it \<Rightarrow>
          set_schedule_children n (upd_item h item (\<lambda>c. c\<lparr>schedule := Some self\<rparr>)) self
            (children it))"
| "set_schedule_children n h self [] = Inr h"
| "set_schedule_children n h self (child # cs) =
     (case set_schedule_recursive n h self child of
        Inl e \<Rightarrow> Inl e
      | Inr h1 \<Rightarrow> set_schedule_children n h1 self cs)"

fun schedule_post_init :: "nat \<Rightarrow> heap \<Rightarrow> ref \<Rightarrow> ref list \<Rightarrow> error + heap" where
  "schedule_post_init n h self [] = Inr h"
| "schedule_post_init n h self (item # is) =
     (if item_store h item = None then Inl InvalidRef
      else
        (case set_schedule_recursive n
                (upd_item h item (\<lambda>c. c\<lparr>schedule := Some self\<rparr>)) self item of
           Inl e \<Rightarrow> Inl e
         | Inr h1 \<Rightarrow> schedule_post_init n h1 self is))"

definition new_CostSchedule :: "nat \<Rightarrow> heap \<Rightarrow> CostSchedule \<Rightarrow> error + (ref \<times> heap)" where
  "new_CostSchedule n h sc =
     (let s = next_ref h;
          h1 = h\<lparr>schedule_store := (schedule_store h)(s \<mapsto> sc), next_ref := Suc s\<rparr>
      in (case schedule_post_init n h1 s (items sc) of
            Inl e \<Rightarrow> Inl e
          | Inr h2 \<Rightarrow> Inr (s, h2)))"

text \<open>
  \<^verbatim>\<open>CostItem.copy\<close>:
  \<^verbatim>\<open>
    new_cost_value = CostValue(unit_price=self.cost_value.unit_price,
                               quantity=self.cost_value.quantity,
                               quantity_type=self.cost_value.quantity_type)
    new_item = CostItem(name=self.name, html_name=self.html_name,
                        identification=self.identification, sfb_code=self.sfb_code,
                        description=self.description, is_text_only=self.is_text_only,
                        cost_value=new_cost_value)
    for child in self.children:
        child_copy = child.copy()
        new_item.add_child(child_copy)
    return new_item
  \<close>
  The fields that are not passed take the defaults of the dataclass.  The loop runs
  over the children \<open>self\<close> has when the call starts: nothing in it assigns to an
  object that existed before the call.
\<close>

fun copy :: "nat \<Rightarrow> heap \<Rightarrow> ref \<Rightarrow> error + (ref \<times> heap)"
  and copy_children :: "nat \<Rightarrow> heap \<Rightarrow> ref \<Rightarrow> ref list \<Rightarrow> error + (ref \<times> heap)" where
  "copy 0 h r = Inl RecursionError"
| "copy (Suc n) h r =
     (case item_store h r of
        None \<Rightarrow> Inl InvalidRef
      | Some it \<Rightarrow>
          (case value_store h (cost_value it) of
             None \<Rightarrow> Inl InvalidRef
           | Some cv \<Rightarrow>
               (case new_CostValue h
                       \<lparr> unit_price = unit_price cv, quantity = quantity cv,
                         quantity_type = quantity_type cv, category = [],
                         value_description = [], ifc_cost_value = None,
                         ifc_quantity = None \<rparr> of
                  (new_cost_value, h1) \<Rightarrow>
                    (case new_CostItem h1
                            \<lparr> name = name it, html_name = html_name it,
                              identification = identification it,
                              sfb_code = sfb_code it, description = description it,
                              is_text_only = is_text_only it,
                              cost_value = new_cost_value, children = [],
                              parent = None, schedule = None,
                              ifc_cost_item = None \<rparr> of
                       (new_item, h2) \<Rightarrow> copy_children n h2 new_item (children it)))))"
| "copy_children n h new_item [] = Inr (new_item, h)"
| "copy_children n h new_item (child # cs) =
     (case copy n h child of
        Inl e \<Rightarrow> Inl e
      | Inr (child_copy, h1) \<Rightarrow>
          (case add_child h1 new_item child_copy of
             Inl e \<Rightarrow> Inl e
           | Inr (c, h2) \<Rightarrow> copy_children n h2 new_item cs))"

text \<open>The setter of \<^verbatim>\<open>CostItem.unit_price\<close>: \<^verbatim>\<open>self.cost_value.unit_price = value\<close>.\<close>

definition set_unit_price :: "heap \<Rightarrow> ref \<Rightarrow> real \<Rightarrow> heap" where
  "set_unit_price h r v =
     (case item_store h r of
        None \<Rightarrow> h
      | Some it \<Rightarrow>
          (case value_store h (cost_value it) of
             None \<Rightarrow> h
           | Some cv \<Rightarrow>
               h\<lparr>value_store := (value_store h)(cost_value it \<mapsto> cv\<lparr>unit_price := v\<rparr>)\<rparr>))"

text \<open>
  Two stores hold the same objects below an address: what a call that only creates
  objects, and assigns to the ones it created, leaves of the store it started from.
\<close>

definition same_below :: "ref \<Rightarrow> heap \<Rightarrow> heap \<Rightarrow> bool" where
  "same_below k h h' =
     (\<forall>a<k. item_store h' a = item_store h a \<and> value_store h' a = value_store h a)"

section \<open>Paths and identification\<close>

text \<open>
  \<^verbatim>\<open>CostItem.get_path\<close>:
  \<^verbatim>\<open>
    path = [self]
    item = self.parent
    while item:
        path.insert(0, item)
        item = item.parent
    return path
  \<close>
  The first argument bounds the number of rounds of the loop.
\<close>

fun get_path_loop :: "nat \<Rightarrow> heap \<Rightarrow> ref option \<Rightarrow> ref list \<Rightarrow> error + ref list" where
  "get_path_loop n h None path = Inr path"
| "get_path_loop 0 h (Some i) path = Inl Diverges"
| "get_path_loop (Suc n) h (Some i) path =
     (case item_store h i of
        None \<Rightarrow> Inl InvalidRef
      | Some it \<Rightarrow> get_path_loop n h (parent it) (i # path))"

definition get_path :: "nat \<Rightarrow> heap \<Rightarrow> ref \<Rightarrow> error + ref list" where
  "get_path n h self =
     (case item_store h self of
        None \<Rightarrow> Inl InvalidRef
      | Some s \<Rightarrow> get_path_loop n h (parent s) [self])"

text \<open>\<^verbatim>\<open>separator.join(parts)\<close>.\<close>

fun str_join :: "string \<Rightarrow> string list \<Rightarrow> string" where
  "str_join sep [] = []"
| "str_join sep [x] = x"
| "str_join sep (x # y # ys) = x @ sep @ str_join sep (y # ys)"

text \<open>
  Joined with the separator, in the words of the specification: the parts in their
  order, with the separator in front of every part but the first.
\<close>

definition spec_joined :: "string \<Rightarrow> string list \<Rightarrow> string" where
  "spec_joined sep parts =
     (case parts of [] \<Rightarrow> [] | p # ps \<Rightarrow> p @ concat (map (\<lambda>x. sep @ x) ps))"

text \<open>
  \<^verbatim>\<open>CostItem.get_full_identification\<close>:
  \<^verbatim>\<open>
    parts = []
    for item in self.get_path():
        if item.identification:
            parts.append(item.identification)
    return separator.join(parts)
  \<close>
  The separator defaults to \<^verbatim>\<open>"."\<close>.
\<close>

fun identification_parts :: "heap \<Rightarrow> ref list \<Rightarrow> error + string list" where
  "identification_parts h [] = Inr []"
| "identification_parts h (i # is) =
     (case item_store h i of
        None \<Rightarrow> Inl InvalidRef
      | Some it \<Rightarrow>
          (case identification_parts h is of
             Inl e \<Rightarrow> Inl e
           | Inr parts \<Rightarrow>
               Inr (if identification it \<noteq> [] then identification it # parts else parts)))"

definition get_full_identification :: "nat \<Rightarrow> heap \<Rightarrow> ref \<Rightarrow> string \<Rightarrow> error + string" where
  "get_full_identification n h self separator =
     (case get_path n h self of
        Inl e \<Rightarrow> Inl e
      | Inr path \<Rightarrow>
          (case identification_parts h path of
             Inl e \<Rightarrow> Inl e
           | Inr parts \<Rightarrow> Inr (str_join separator parts)))"

definition default_separator :: string where
  "default_separator = ''.''"

text \<open>
  The chain of ancestors, in words: \<open>chain h par p\<close> says that the first item of \<open>p\<close>
  has parent \<open>par\<close> and every later one has its predecessor as parent; a path to
  \<open>r\<close> is such a chain that starts at an item without parent and ends in \<open>r\<close>.
\<close>

fun chain :: "heap \<Rightarrow> ref option \<Rightarrow> ref list \<Rightarrow> bool" where
  "chain h par [] = True"
| "chain h par (r # rs) =
     (case item_store h r of
        None \<Rightarrow> False
      | Some it \<Rightarrow> parent it = par \<and> chain h (Some r) rs)"

definition path_to :: "heap \<Rightarrow> ref list \<Rightarrow> ref \<Rightarrow> bool" where
  "path_to h p r = (p \<noteq> [] \<and> last p = r \<and> chain h None p)"

definition identification_of :: "heap \<Rightarrow> ref \<Rightarrow> string" where
  "identification_of h r =
     (case item_store h r of None \<Rightarrow> [] | Some it \<Rightarrow> identification it)"

section \<open>The IFC wrapper\<close>

text \<open>
  \<^verbatim>\<open>ifc/cost_api.py\<close>, \<^verbatim>\<open>CostAPI.add_cost_item\<close>:
  \<^verbatim>\<open>
    if not cost_schedule and not cost_item:
        raise ValueError("Geef een cost_schedule of cost_item op als parent")
    item = ifcopenshell.api.run("cost.add_cost_item", self._ifc_file,
                                cost_schedule=cost_schedule, cost_item=cost_item)
    if name: item.Name = name
    if identification: item.Identification = identification
    return item
  \<close>
  \<^verbatim>\<open>ifcopenshell.api.run\<close> belongs to a library outside the repository: it is the
  parameter \<open>api_run\<close>, which creates an entity in the file or fails with an error of
  its own (\<open>LibraryError\<close>; \<open>Raised\<close> is an exception of the wrapper itself).  The two parents are entities of the library or \<^verbatim>\<open>None\<close>; an entity counts as
  true in a condition.
\<close>

record ifc_entity =
  entity_id :: nat
  Name :: "string option"
  Identification :: "string option"

datatype 'x api_error = Raised error | LibraryError 'x

definition add_cost_item ::
  "('f \<Rightarrow> nat option \<Rightarrow> nat option \<Rightarrow> 'x + (ifc_entity \<times> 'f))
    \<Rightarrow> 'f \<Rightarrow> nat option \<Rightarrow> nat option \<Rightarrow> string \<Rightarrow> string
    \<Rightarrow> 'x api_error + (ifc_entity \<times> 'f)" where
  "add_cost_item api_run ifc_file cost_schedule cost_item nm ident =
     (if cost_schedule = None \<and> cost_item = None then Inl (Raised ValueError)
      else
        (case api_run ifc_file cost_schedule cost_item of
           Inl x \<Rightarrow> Inl (LibraryError x)
         | Inr (item, f) \<Rightarrow>
             let item1 = (if nm \<noteq> [] then item\<lparr>Name := Some nm\<rparr> else item);
                 item2 = (if ident \<noteq> [] then item1\<lparr>Identification := Some ident\<rparr> else item1)
             in Inr (item2, f)))"

section \<open>The forest in pre-order\<close>

text \<open>
  The pre-order list of the addresses of a forest: each root, then the nodes below
  it, root by root.
\<close>

fun preorder :: "heap \<Rightarrow> ref \<Rightarrow> tree \<Rightarrow> ref list"
  and preorder_list :: "heap \<Rightarrow> ref list \<Rightarrow> tree list \<Rightarrow> ref list" where
  "preorder h r (Node d ts) = r # preorder_list h (children_of h r) ts"
| "preorder_list h (r # rs) (t # ts) = preorder h r t @ preorder_list h rs ts"
| "preorder_list h [] ts = []"
| "preorder_list h (r # rs) [] = []"

section \<open>What a copy leaves and creates\<close>

text \<open>
  \<open>strip\<close> forgets the two back-references of an item, which the tree below it does
  not depend on.  \<open>grown y h h'\<close>: the store \<open>h'\<close> holds every object of \<open>h\<close> as it was,
  but for the item \<open>y\<close>.  \<open>copied h h' y t\<close>: \<open>h'\<close> is \<open>h\<close> with new objects only, and the
  new item \<open>y\<close>, detached, is the tree \<open>t\<close> made of new objects.
\<close>

definition strip :: "CostItem \<Rightarrow> CostItem" where
  "strip it = it\<lparr>parent := None, schedule := None\<rparr>"

definition grown :: "ref \<Rightarrow> heap \<Rightarrow> heap \<Rightarrow> bool" where
  "grown y h h' =
     (next_ref h \<le> next_ref h' \<and> schedule_store h' = schedule_store h
      \<and> (\<forall>a<next_ref h. value_store h' a = value_store h a
             \<and> (a \<noteq> y \<longrightarrow> item_store h' a = item_store h a)))"

definition copied :: "heap \<Rightarrow> heap \<Rightarrow> ref \<Rightarrow> tree \<Rightarrow> bool" where
  "copied h h' y t =
     (next_ref h \<le> y \<and> y < next_ref h' \<and> same_below (next_ref h) h h'
      \<and> schedule_store h' = schedule_store h
      \<and> tree_on (\<lambda>a. next_ref h \<le> a \<and> a < next_ref h') h' y t
      \<and> parent_of h' y = None \<and> schedule_of h' y = None)"

section \<open>Example stores\<close>

definition empty_heap :: heap where
  "empty_heap =
     \<lparr> item_store = Map.empty, value_store = Map.empty,
       schedule_store = Map.empty, next_ref = 0 \<rparr>"

definition mk_value :: "real \<Rightarrow> real \<Rightarrow> QuantityType \<Rightarrow> CostValue" where
  "mk_value p q k =
     \<lparr> unit_price = p, quantity = q, quantity_type = k, category = [],
       value_description = [], ifc_cost_value = None, ifc_quantity = None \<rparr>"

definition mk_item ::
  "string \<Rightarrow> string \<Rightarrow> bool \<Rightarrow> ref \<Rightarrow> ref list \<Rightarrow> ref option \<Rightarrow> ref option \<Rightarrow> CostItem" where
  "mk_item nm ident txt cv cs p s =
     \<lparr> name = nm, html_name = [], identification = ident, sfb_code = [],
       description = [], is_text_only = txt, cost_value = cv, children = cs,
       parent = p, schedule = s, ifc_cost_item = None \<rparr>"

definition mk_schedule :: "string \<Rightarrow> ref list \<Rightarrow> real \<Rightarrow> CostSchedule" where
  "mk_schedule nm is rate =
     \<lparr> schedule_name = nm, schedule_description = [], schedule_type = BUDGET,
       status = DRAFT, created_date = Some (2026, 1, 1), update_date = None,
       submitted_on = None, items = is, vat_rate = rate, ifc_cost_schedule = None \<rparr>"

definition mk_data :: "string \<Rightarrow> string \<Rightarrow> bool \<Rightarrow> real \<Rightarrow> real \<Rightarrow> QuantityType \<Rightarrow> node_data" where
  "mk_data nm ident txt p q k =
     \<lparr> nd_name = nm, nd_html_name = [], nd_identification = ident, nd_sfb_code = [],
       nd_description = [], nd_is_text_only = txt, nd_unit_price = p, nd_quantity = q,
       nd_quantity_type = k \<rparr>"

text \<open>
  \<^verbatim>\<open>CostItem(name=..., identification=...)\<close>: the default factory creates the cost value
  (price and quantity 0, counted in pieces), then the item is created.
\<close>

definition new_item :: "heap \<Rightarrow> string \<Rightarrow> string \<Rightarrow> ref \<times> heap" where
  "new_item h nm ident =
     (case new_CostValue h (mk_value 0 0 COUNT) of
        (v, h1) \<Rightarrow> new_CostItem h1 (mk_item nm ident False v [] None None))"

text \<open>
  Scenarios A and B of the specification: a schedule (address 0, VAT 21) with the
  chapter "01" Grondwerk (item 2), which holds the leaf "01.01" with quantity 85 and
  unit price 12.50 (item 4) and a text-only row with quantity 10 and unit price 5
  (item 6).  The odd addresses hold the cost values.
\<close>

definition scenario_heap :: heap where
  "scenario_heap =
     \<lparr> item_store =
         [ 2 \<mapsto> mk_item ''Grondwerk'' ''01'' False 1 [4, 6] None (Some 0),
           4 \<mapsto> mk_item ''Ontgraven'' ''01.01'' False 3 [] (Some 2) (Some 0),
           6 \<mapsto> mk_item ''Opmerking'' [] True 5 [] (Some 2) (Some 0) ],
       value_store =
         [ 1 \<mapsto> mk_value 0 0 COUNT,
           3 \<mapsto> mk_value 12.5 85 VOLUME,
           5 \<mapsto> mk_value 5 10 COUNT ],
       schedule_store = [ 0 \<mapsto> mk_schedule ''Begroting'' [2] 21 ],
       next_ref = 7 \<rparr>"

definition scenario_tree :: tree where
  "scenario_tree =
     Node (mk_data ''Grondwerk'' ''01'' False 0 0 COUNT)
       [ Node (mk_data ''Ontgraven'' ''01.01'' False 12.5 85 VOLUME) [],
         Node (mk_data ''Opmerking'' [] True 5 10 COUNT) [] ]"


text \<open>
  A text-only item that has a child: item 1 is flagged \<open>is_text_only\<close> and holds the
  leaf 3 with quantity 2 and unit price 3.
\<close>

definition text_chapter_heap :: heap where
  "text_chapter_heap =
     \<lparr> item_store =
         [ 1 \<mapsto> mk_item ''Tekst'' ''02'' True 0 [3] None None,
           3 \<mapsto> mk_item ''Post'' ''02.01'' False 2 [] (Some 1) None ],
       value_store = [ 0 \<mapsto> mk_value 0 0 COUNT, 2 \<mapsto> mk_value 3 2 COUNT ],
       schedule_store = Map.empty,
       next_ref = 4 \<rparr>"

text \<open>
  The example of the specification for full identifications: the root chapter "01"
  (item 1) and its leaf "01.05" (item 3).
\<close>

definition ident_heap :: heap where
  "ident_heap =
     \<lparr> item_store =
         [ 1 \<mapsto> mk_item ''Hoofdstuk'' ''01'' False 0 [3] None None,
           3 \<mapsto> mk_item ''Post'' ''01.05'' False 2 [] (Some 1) None ],
       value_store = [ 0 \<mapsto> mk_value 0 0 COUNT, 2 \<mapsto> mk_value 10 1 COUNT ],
       schedule_store = Map.empty,
       next_ref = 4 \<rparr>"

text \<open>A stand-in for the library call: it numbers the entities it creates.\<close>

definition example_api :: "nat \<Rightarrow> nat option \<Rightarrow> nat option \<Rightarrow> unit + (ifc_entity \<times> nat)" where
  "example_api f s i = Inr (\<lparr> entity_id = f, Name = None, Identification = None \<rparr>, Suc f)"

text \<open>
  A chapter (item 1) with three rows, the first and the last of which (items 3 and 7)
  were entered with the same data: same name, no code, quantity and price 0.
\<close>

definition dup_heap :: heap where
  "dup_heap =
     \<lparr> item_store =
         [ 1 \<mapsto> mk_item ''Hoofdstuk'' [] False 0 [3, 5, 7] None None,
           3 \<mapsto> mk_item ''Nieuwe post'' [] False 2 [] (Some 1) None,
           5 \<mapsto> mk_item ''Andere post'' [] False 4 [] (Some 1) None,
           7 \<mapsto> mk_item ''Nieuwe post'' [] False 6 [] (Some 1) None ],
       value_store =
         [ 0 \<mapsto> mk_value 0 0 COUNT, 2 \<mapsto> mk_value 0 0 COUNT,
           4 \<mapsto> mk_value 0 0 COUNT, 6 \<mapsto> mk_value 0 0 COUNT ],
       schedule_store = Map.empty,
       next_ref = 8 \<rparr>"

text \<open>
  A chapter (item 1) that holds a paragraph (item 3) with one row (item 5);
  \<open>twin_heap\<close> is the store after \<^verbatim>\<open>x = paragraph.copy()\<close>, where the copy is item 7 with
  its row 9, and \<open>twin_attached\<close> the store after \<^verbatim>\<open>chapter.add_child(x)\<close>.
\<close>

definition base_heap :: heap where
  "base_heap =
     \<lparr> item_store =
         [ 1 \<mapsto> mk_item ''Hoofdstuk'' [] False 0 [3] None None,
           3 \<mapsto> mk_item ''Paragraaf'' [] False 2 [5] (Some 1) None,
           5 \<mapsto> mk_item ''Post'' [] False 4 [] (Some 3) None ],
       value_store =
         [ 0 \<mapsto> mk_value 0 0 COUNT, 2 \<mapsto> mk_value 0 0 COUNT,
           4 \<mapsto> mk_value 0 0 COUNT ],
       schedule_store = Map.empty,
       next_ref = 6 \<rparr>"

definition twin_heap :: heap where
  "twin_heap =
     \<lparr> item_store =
         [ 1 \<mapsto> mk_item ''Hoofdstuk'' [] False 0 [3] None None,
           3 \<mapsto> mk_item ''Paragraaf'' [] False 2 [5] (Some 1) None,
           5 \<mapsto> mk_item ''Post'' [] False 4 [] (Some 3) None,
           7 \<mapsto> mk_item ''Paragraaf'' [] False 6 [9] None None,
           9 \<mapsto> mk_item ''Post'' [] False 8 [] (Some 7) None ],
       value_store =
         [ 0 \<mapsto> mk_value 0 0 COUNT, 2 \<mapsto> mk_value 0 0 COUNT,
           4 \<mapsto> mk_value 0 0 COUNT, 6 \<mapsto> mk_value 0 0 COUNT,
           8 \<mapsto> mk_value 0 0 COUNT ],
       schedule_store = Map.empty,
       next_ref = 10 \<rparr>"

definition twin_attached :: heap where
  "twin_attached =
     \<lparr> item_store =
         [ 1 \<mapsto> mk_item ''Hoofdstuk'' [] False 0 [3, 7] None None,
           3 \<mapsto> mk_item ''Paragraaf'' [] False 2 [5] (Some 1) None,
           5 \<mapsto> mk_item ''Post'' [] False 4 [] (Some 3) None,
           7 \<mapsto> mk_item ''Paragraaf'' [] False 6 [9] (Some 1) None,
           9 \<mapsto> mk_item ''Post'' [] False 8 [] (Some 7) None ],
       value_store =
         [ 0 \<mapsto> mk_value 0 0 COUNT, 2 \<mapsto> mk_value 0 0 COUNT,
           4 \<mapsto> mk_value 0 0 COUNT, 6 \<mapsto> mk_value 0 0 COUNT,
           8 \<mapsto> mk_value 0 0 COUNT ],
       schedule_store = Map.empty,
       next_ref = 10 \<rparr>"

text \<open>
  An empty schedule (address 0) and, not yet attached, a chapter (item 2) that already
  holds a row (item 4).
\<close>

definition nested_heap :: heap where
  "nested_heap =
     \<lparr> item_store =
         [ 2 \<mapsto> mk_item ''Hoofdstuk'' ''01'' False 1 [4] None None,
           4 \<mapsto> mk_item ''Post'' ''01.01'' False 3 [] (Some 2) None ],
       value_store = [ 1 \<mapsto> mk_value 0 0 COUNT, 3 \<mapsto> mk_value 0 0 COUNT ],
       schedule_store = [ 0 \<mapsto> mk_schedule ''Begroting'' [] 21 ],
       next_ref = 5 \<rparr>"

text \<open>The store of scenarios A and B after \<^verbatim>\<open>y = leaf.copy()\<close> for the leaf "01.01": the copy is item 8.\<close>

definition leaf_copy_heap :: heap where
  "leaf_copy_heap =
     \<lparr> item_store =
         [ 2 \<mapsto> mk_item ''Grondwerk'' ''01'' False 1 [4, 6] None (Some 0),
           4 \<mapsto> mk_item ''Ontgraven'' ''01.01'' False 3 [] (Some 2) (Some 0),
           6 \<mapsto> mk_item ''Opmerking'' [] True 5 [] (Some 2) (Some 0),
           8 \<mapsto> mk_item ''Ontgraven'' ''01.01'' False 7 [] None None ],
       value_store =
         [ 1 \<mapsto> mk_value 0 0 COUNT,
           3 \<mapsto> mk_value 12.5 85 VOLUME,
           5 \<mapsto> mk_value 5 10 COUNT,
           7 \<mapsto> mk_value 12.5 85 VOLUME ],
       schedule_store = [ 0 \<mapsto> mk_schedule ''Begroting'' [2] 21 ],
       next_ref = 9 \<rparr>"

section \<open>Properties of the totals\<close>

lemma foldr_max_ge: "x \<in> set xs \<Longrightarrow> x \<le> foldr max xs (0::nat)"
  by (induction xs) (auto simp: max_def)

lemma height_sub: "t \<in> set ts \<Longrightarrow> height t < height (Node d ts)"
  using foldr_max_ge [of "height t" "map height ts"] by auto

lemma trees_on_length: "trees_on P h rs ts \<Longrightarrow> length rs = length ts"
  by (induction rs arbitrary: ts) (case_tac ts; simp)+

lemma sum_subtotals_trees:
  assumes IH: "\<And>r t. tree_on P h r t \<Longrightarrow> height t < n
                 \<Longrightarrow> subtotal n h r = Inr (spec_subtotal t)"
  shows "trees_on P h rs ts \<Longrightarrow> (\<And>t. t \<in> set ts \<Longrightarrow> height t < n)
           \<Longrightarrow> sum_subtotals n h acc rs
               = Inr (acc + sum_list (map spec_subtotal ts))"
proof (induction rs arbitrary: ts acc)
  case Nil
  then show ?case by (cases ts) simp_all
next
  case (Cons r rs)
  then obtain t ts' where ts: "ts = t # ts'"
    by (cases ts) simp_all
  from Cons.prems ts have "subtotal n h r = Inr (spec_subtotal t)"
    by (intro IH) simp_all
  moreover from Cons.prems ts
  have "sum_subtotals n h (acc + spec_subtotal t) rs
          = Inr (acc + spec_subtotal t + sum_list (map spec_subtotal ts'))"
    by (intro Cons.IH) simp_all
  ultimately show ?case using ts by simp
qed

lemma subtotal_tree:
  "tree_on P h r t \<Longrightarrow> height t < n \<Longrightarrow> subtotal n h r = Inr (spec_subtotal t)"
proof (induction n arbitrary: r t)
  case 0
  then show ?case by simp
next
  case (Suc n)
  obtain d ts where t: "t = Node d ts" by (cases t)
  from Suc.prems t obtain it cv where
    it: "item_store h r = Some it" and cv: "value_store h (cost_value it) = Some cv"
    and d: "d = data_of it cv" and ts: "trees_on P h (children it) ts"
    by (auto split: option.splits)
  have len: "length (children it) = length ts"
    using ts by (rule trees_on_length)
  have sub: "\<And>t'. t' \<in> set ts \<Longrightarrow> height t' < n"
    using Suc.prems(2) t height_sub [of _ ts d] by fastforce
  have "sum_subtotals n h 0 (children it) = Inr (0 + sum_list (map spec_subtotal ts))"
    using Suc.IH ts sub by (rule sum_subtotals_trees)
  then show ?case
    using it cv d len t by (simp add: data_of_def CostValue_total_def)
qed

lemmas example_defs =
  scenario_heap_def scenario_tree_def mk_item_def mk_value_def mk_schedule_def mk_data_def
  data_of_def

text \<open>
  C1.  The subtotal of a cost item is the aggregation rule applied to the tree below
  it: 0 for a text-only item, quantity times unit price for a childless one, the sum
  of the children's subtotals in child order otherwise; with a recursion depth above
  the height of the tree the call returns that number.  \<open>total\<close> is the same call.
\<close>

theorem subtotal_aggregation_rule:
  "tree_at h r t \<Longrightarrow> height t < n \<Longrightarrow>
     subtotal n h r = Inr (spec_subtotal t) \<and> CostItem_total n h r = subtotal n h r"
  unfolding tree_at_def CostItem_total_def by (simp add: subtotal_tree)

theorem subtotal_aggregation_rule_witness:
  "tree_at scenario_heap 2 scenario_tree \<and> height scenario_tree < 3
   \<and> subtotal 3 scenario_heap 2 = Inr 1062.5
   \<and> CostItem_total 3 scenario_heap 2 = Inr 1062.5"
proof -
  have t: "tree_at scenario_heap 2 scenario_tree"
    by (simp add: tree_at_def example_defs)
  have h: "height scenario_tree < 3"
    by (simp add: scenario_tree_def)
  have v: "spec_subtotal scenario_tree = 1062.5"
    by (simp add: scenario_tree_def mk_data_def)
  show ?thesis
    using subtotal_aggregation_rule [OF t h] t h v by simp
qed

lemma trees_on_subtotals:
  "trees_on P h rs ts \<Longrightarrow> (\<And>t. t \<in> set ts \<Longrightarrow> height t < n)
     \<Longrightarrow> list_all2 (\<lambda>c t. subtotal n h c = Inr (spec_subtotal t)) rs ts"
proof (induction rs arbitrary: ts)
  case Nil
  then show ?case by (cases ts) simp_all
next
  case (Cons r rs)
  then obtain t ts' where ts: "ts = t # ts'"
    by (cases ts) simp_all
  with Cons.prems have "subtotal n h r = Inr (spec_subtotal t)"
    by (intro subtotal_tree [of P]) simp_all
  moreover from Cons.prems ts
  have "list_all2 (\<lambda>c t. subtotal n h c = Inr (spec_subtotal t)) rs ts'"
    by (intro Cons.IH) simp_all
  ultimately show ?case using ts by simp
qed


section \<open>Properties of the schedule totals\<close>














section \<open>Properties of chapters\<close>

text \<open>
  C7 as stated fails for an item that has children and is flagged text-only: the flag
  is tested first, so its subtotal is 0 whatever its children add up to.  Here the
  only child has subtotal 6.
\<close>

theorem text_only_chapter_counterexample:
  "children_of text_chapter_heap 1 = [3]
   \<and> subtotal 5 text_chapter_heap 3 = Inr 6
   \<and> sum_subtotals 5 text_chapter_heap 0 (children_of text_chapter_heap 1) = Inr 6
   \<and> subtotal 5 text_chapter_heap 1 = Inr 0"
  by (simp add: text_chapter_heap_def children_of_def mk_item_def mk_value_def
      CostValue_total_def eval_nat_numeral)

text \<open>
  C7, amended.  For every cost item with at least one child that is not flagged
  text-only, in any tree, the subtotal is the sum of the subtotals of its children,
  in child order; the item's own cost value (the unit price and quantity in \<open>d\<close>) does
  not occur in it.
\<close>

theorem chapter_subtotal:
  "tree_at h r (Node d ts) \<Longrightarrow> ts \<noteq> [] \<Longrightarrow> \<not> nd_is_text_only d
     \<Longrightarrow> height (Node d ts) < n
     \<Longrightarrow> list_all2 (\<lambda>c t. subtotal n h c = Inr (spec_subtotal t)) (children_of h r) ts
         \<and> subtotal n h r = Inr (sum_list (map spec_subtotal ts))"
proof -
  assume t: "tree_at h r (Node d ts)" and ne: "ts \<noteq> []"
    and nt: "\<not> nd_is_text_only d" and hn: "height (Node d ts) < n"
  from t obtain it where it: "item_store h r = Some it"
    and ts: "trees_on (\<lambda>a. True) h (children it) ts"
    by (auto simp: tree_at_def split: option.splits)
  have sub: "\<And>t'. t' \<in> set ts \<Longrightarrow> height t' < n"
    using hn height_sub [of _ ts d] by fastforce
  have "list_all2 (\<lambda>c t. subtotal n h c = Inr (spec_subtotal t)) (children it) ts"
    using ts sub by (rule trees_on_subtotals)
  moreover have "subtotal n h r = Inr (spec_subtotal (Node d ts))"
    using t hn unfolding tree_at_def by (rule subtotal_tree)
  ultimately show ?thesis
    using it ne nt by (simp add: children_of_def)
qed

theorem chapter_subtotal_witness:
  "tree_at scenario_heap 2 scenario_tree
   \<and> children_of scenario_heap 2 = [4, 6]
   \<and> subtotal 3 scenario_heap 4 = Inr 1062.5
   \<and> subtotal 3 scenario_heap 6 = Inr 0
   \<and> subtotal 3 scenario_heap 2 = Inr 1062.5"
proof -
  have t: "tree_at scenario_heap 2
             (Node (mk_data ''Grondwerk'' ''01'' False 0 0 COUNT)
               [ Node (mk_data ''Ontgraven'' ''01.01'' False 12.5 85 VOLUME) [],
                 Node (mk_data ''Opmerking'' [] True 5 10 COUNT) [] ])"
    by (simp add: tree_at_def example_defs)
  have c: "children_of scenario_heap 2 = [4, 6]"
    by (simp add: children_of_def scenario_heap_def mk_item_def)
  show ?thesis
    using chapter_subtotal [OF t, of 3] t c
    by (simp add: scenario_tree_def mk_data_def)
qed

section \<open>Properties of the flattening\<close>

lemma count_loop_length:
  "item_count_loop n h (length acc) is
     = (case get_all_items_loop n h acc is of Inl e \<Rightarrow> Inl e | Inr l \<Rightarrow> Inr (length l))"
proof (induction "is" arbitrary: acc)
  case Nil
  show ?case by simp
next
  case (Cons i "is")
  show ?case
  proof (cases "get_all_descendants n h i")
    case (Inl e)
    then show ?thesis by simp
  next
    case (Inr ds)
    then show ?thesis
      using Cons.IH [of "(acc @ [i]) @ ds"] by simp
  qed
qed

lemma descendants_loop_trees:
  assumes IH: "\<And>r d ts. tree_on P h r (Node d ts) \<Longrightarrow> height (Node d ts) < n
                 \<Longrightarrow> get_all_descendants n h r = Inr (preorder_list h (children_of h r) ts)"
  shows "trees_on P h rs ts \<Longrightarrow> (\<And>t. t \<in> set ts \<Longrightarrow> height t < n)
           \<Longrightarrow> descendants_loop n h acc rs = Inr (acc @ preorder_list h rs ts)"
proof (induction rs arbitrary: ts acc)
  case Nil
  then show ?case by (cases ts) simp_all
next
  case (Cons r rs)
  then obtain t ts' where ts: "ts = t # ts'"
    by (cases ts) simp_all
  obtain d us where t: "t = Node d us" by (cases t)
  have tr: "tree_on P h r (Node d us)"
    using Cons.prems(1) ts t by simp
  have hh: "height (Node d us) < n"
    using Cons.prems(2) [of t] ts t by simp
  have "get_all_descendants n h r = Inr (preorder_list h (children_of h r) us)"
    using tr hh by (rule IH)
  moreover from Cons.prems ts
  have "descendants_loop n h ((acc @ [r]) @ preorder_list h (children_of h r) us) rs
          = Inr (((acc @ [r]) @ preorder_list h (children_of h r) us) @ preorder_list h rs ts')"
    by (intro Cons.IH) simp_all
  ultimately show ?case using ts t by simp
qed

lemma descendants_tree:
  "tree_on P h r (Node d ts) \<Longrightarrow> height (Node d ts) < n
     \<Longrightarrow> get_all_descendants n h r = Inr (preorder_list h (children_of h r) ts)"
proof (induction n arbitrary: r d ts)
  case 0
  then show ?case by simp
next
  case (Suc n)
  from Suc.prems obtain it where
    it: "item_store h r = Some it" and ts: "trees_on P h (children it) ts"
    by (auto split: option.splits)
  have sub: "\<And>t'. t' \<in> set ts \<Longrightarrow> height t' < n"
    using Suc.prems(2) height_sub [of _ ts d] by fastforce
  have "descendants_loop n h [] (children it) = Inr ([] @ preorder_list h (children it) ts)"
    using Suc.IH ts sub by (rule descendants_loop_trees)
  then show ?case
    using it by (simp add: children_of_def)
qed

lemma all_items_loop_trees:
  "trees_on P h rs ts \<Longrightarrow> (\<And>t. t \<in> set ts \<Longrightarrow> height t < n)
     \<Longrightarrow> get_all_items_loop n h acc rs = Inr (acc @ preorder_list h rs ts)"
proof (induction rs arbitrary: ts acc)
  case Nil
  then show ?case by (cases ts) simp_all
next
  case (Cons r rs)
  then obtain t ts' where ts: "ts = t # ts'"
    by (cases ts) simp_all
  obtain d us where t: "t = Node d us" by (cases t)
  have tr: "tree_on P h r (Node d us)"
    using Cons.prems(1) ts t by simp
  have hh: "height (Node d us) < n"
    using Cons.prems(2) [of t] ts t by simp
  have "get_all_descendants n h r = Inr (preorder_list h (children_of h r) us)"
    using tr hh by (rule descendants_tree)
  moreover from Cons.prems ts
  have "get_all_items_loop n h ((acc @ [r]) @ preorder_list h (children_of h r) us) rs
          = Inr (((acc @ [r]) @ preorder_list h (children_of h r) us) @ preorder_list h rs ts')"
    by (intro Cons.IH) simp_all
  ultimately show ?case using ts t by simp
qed

lemma preorder_length:
  "tree_on P h r t \<Longrightarrow> length (preorder h r t) = tree_size t"
  "trees_on P h rs ts \<Longrightarrow> length (preorder_list h rs ts) = sum_list (map tree_size ts)"
proof (induction P h r t and P h rs ts rule: tree_on_trees_on.induct)
  case (1 P h r d ts)
  then show ?case
    by (auto simp: children_of_def split: option.splits)
qed simp_all

text \<open>
  C10.  \<open>item_count\<close> is the length of the list \<open>get_all_items\<close> returns, in every
  store and with every depth budget (both raise together); and for a schedule whose
  root items are finite trees both return: the list is the pre-order enumeration of
  the forest and the count is its number of nodes.
\<close>

theorem item_count_is_length:
  "item_count n h s
     = (case get_all_items n h s of Inl e \<Rightarrow> Inl e | Inr l \<Rightarrow> Inr (length l))
   \<and> (\<forall>sc ts. schedule_store h s = Some sc \<longrightarrow> trees_at h (items sc) ts
          \<longrightarrow> (\<forall>t\<in>set ts. height t < n)
          \<longrightarrow> get_all_items n h s = Inr (preorder_list h (items sc) ts)
              \<and> item_count n h s = Inr (sum_list (map tree_size ts)))"
proof -
  have eq: "item_count n h s
     = (case get_all_items n h s of Inl e \<Rightarrow> Inl e | Inr l \<Rightarrow> Inr (length l))"
    using count_loop_length [of n h "[]"]
    by (simp add: item_count_def get_all_items_def split: option.splits)
  have forest: "get_all_items n h s = Inr (preorder_list h (items sc) ts)
              \<and> item_count n h s = Inr (sum_list (map tree_size ts))"
    if sc: "schedule_store h s = Some sc" and ts: "trees_at h (items sc) ts"
      and hs: "\<forall>t\<in>set ts. height t < n" for sc ts
  proof -
    have "get_all_items_loop n h [] (items sc) = Inr ([] @ preorder_list h (items sc) ts)"
      using ts hs unfolding trees_at_def by (intro all_items_loop_trees) simp_all
    then have all: "get_all_items n h s = Inr (preorder_list h (items sc) ts)"
      using sc by (simp add: get_all_items_def)
    have "length (preorder_list h (items sc) ts) = sum_list (map tree_size ts)"
      using ts unfolding trees_at_def by (rule preorder_length)
    then show ?thesis using all eq by simp
  qed
  show ?thesis using eq forest by blast
qed

theorem item_count_is_length_witness:
  "get_all_items 3 scenario_heap 0 = Inr [2, 4, 6] \<and> item_count 3 scenario_heap 0 = Inr 3"
proof -
  have sc: "schedule_store scenario_heap 0 = Some (mk_schedule ''Begroting'' [2] 21)"
    by (simp add: scenario_heap_def)
  have ts: "trees_at scenario_heap (items (mk_schedule ''Begroting'' [2] 21)) [scenario_tree]"
    by (simp add: trees_at_def example_defs)
  have hs: "\<forall>t\<in>set [scenario_tree]. height t < 3"
    by (simp add: scenario_tree_def)
  have p: "preorder_list scenario_heap [2] [scenario_tree] = [2, 4, 6]"
    by (simp add: scenario_tree_def scenario_heap_def children_of_def mk_item_def)
  have "get_all_items 3 scenario_heap 0
          = Inr (preorder_list scenario_heap (items (mk_schedule ''Begroting'' [2] 21)) [scenario_tree])
        \<and> item_count 3 scenario_heap 0 = Inr (sum_list (map tree_size [scenario_tree]))"
    using item_count_is_length [of 3 scenario_heap 0] sc ts hs by blast
  then show ?thesis
    using p by (simp add: mk_schedule_def scenario_tree_def)
qed

section \<open>Properties of paths\<close>

lemma chain_append:
  "chain h par (xs @ ys)
     = (chain h par xs \<and> chain h (if xs = [] then par else Some (last xs)) ys)"
  by (induction xs arbitrary: par) (auto split: option.splits)

lemma get_path_loop_chain:
  "chain h None (pre @ suf) \<Longrightarrow> suf \<noteq> [] \<Longrightarrow> length pre \<le> n
     \<Longrightarrow> get_path_loop n h (parent_of h (hd suf)) suf = Inr (pre @ suf)"
proof (induction pre arbitrary: suf n rule: rev_induct)
  case Nil
  then obtain x xs where "suf = x # xs" by (cases suf) simp_all
  with Nil show ?case
    by (auto simp: parent_of_def split: option.splits)
next
  case (snoc x pre)
  obtain y ys where suf: "suf = y # ys" using snoc.prems(2) by (cases suf) simp_all
  obtain m where n: "n = Suc m" using snoc.prems(3) by (cases n) simp_all
  from snoc.prems(1) have c: "chain h None (pre @ (x # suf))" by simp
  from c have cx: "chain h (if pre = [] then None else Some (last pre)) (x # suf)"
    by (simp add: chain_append)
  then obtain it where it: "item_store h x = Some it"
    by (auto split: option.splits)
  from cx it suf have py: "parent_of h y = Some x"
    by (auto simp: parent_of_def split: option.splits)
  have "get_path_loop m h (parent_of h (hd (x # suf))) (x # suf) = Inr (pre @ (x # suf))"
    using c snoc.prems(3) n by (intro snoc.IH) simp_all
  then show ?case
    using py it suf n by (simp add: parent_of_def)
qed

lemma identification_parts_chain:
  "chain h par p
     \<Longrightarrow> identification_parts h p
         = Inr (filter (\<lambda>s. s \<noteq> []) (map (identification_of h) p))"
  by (induction p arbitrary: par) (auto simp: identification_of_def split: option.splits)

lemma str_join_spec: "str_join sep parts = spec_joined sep parts"
  by (induction sep parts rule: str_join.induct) (simp_all add: spec_joined_def)

text \<open>
  C8.  When \<open>p\<close> is the chain of ancestors from the root of the forest down to the
  item, \<open>get_path\<close> returns \<open>p\<close> and \<open>get_full_identification\<close> returns the non-empty
  identifications along \<open>p\<close>, in that order, joined with the separator: the first
  of them, then each later one with the separator in front of it.  Nothing is
  deduplicated.  The witness is the example of the specification: root "01", leaf
  "01.05", default separator, result "01.01.05".
\<close>

theorem full_identification_along_path:
  "path_to h p r \<Longrightarrow> length p \<le> Suc n
     \<Longrightarrow> get_path n h r = Inr p
         \<and> get_full_identification n h r separator
             = Inr (spec_joined separator
                      (filter (\<lambda>s. s \<noteq> []) (map (identification_of h) p)))"
proof -
  assume p: "path_to h p r" and len: "length p \<le> Suc n"
  from p have ne: "p \<noteq> []" and l: "last p = r" and c: "chain h None p"
    by (simp_all add: path_to_def)
  have c': "chain h None (butlast p @ [r])"
    using ne l c by (metis append_butlast_last_id)
  then have "chain h (if butlast p = [] then None else Some (last (butlast p))) [r]"
    by (simp only: chain_append)
  then obtain it where it: "item_store h r = Some it"
    by (auto split: option.splits)
  have "get_path_loop n h (parent_of h (hd [r])) [r] = Inr (butlast p @ [r])"
    using c' len by (intro get_path_loop_chain) simp_all
  moreover have "butlast p @ [r] = p"
    using ne l by (metis append_butlast_last_id)
  ultimately have gp: "get_path n h r = Inr p"
    using it by (simp add: get_path_def parent_of_def)
  show ?thesis
    using gp identification_parts_chain [OF c]
    by (simp add: get_full_identification_def str_join_spec)
qed

theorem full_identification_along_path_witness:
  "path_to ident_heap [1, 3] 3 \<and> length [1, 3 :: nat] \<le> Suc 1
   \<and> get_path 1 ident_heap 3 = Inr [1, 3]
   \<and> get_full_identification 1 ident_heap 3 default_separator = Inr ''01.01.05''"
proof -
  have p: "path_to ident_heap [1, 3] 3"
    by (simp add: path_to_def ident_heap_def mk_item_def)
  have l: "length [1, 3 :: nat] \<le> Suc 1" by simp
  show ?thesis
    using full_identification_along_path [OF p l, of default_separator] p
    by (simp add: identification_of_def ident_heap_def mk_item_def default_separator_def
        spec_joined_def)
qed

section \<open>Properties of the IFC wrapper\<close>

text \<open>
  C9.  \<open>add_cost_item\<close> raises \<open>ValueError\<close> exactly when both the schedule and the
  parent item are absent; it raises nothing else of its own; and when one of them is
  given and the library call returns an entity, the entity is returned, with name and
  identification set when they are not empty.
\<close>

theorem add_cost_item_missing_parent:
  "(add_cost_item api_run f cost_schedule cost_item nm ident = Inl (Raised ValueError))
     = (cost_schedule = None \<and> cost_item = None)
   \<and> (\<forall>e. add_cost_item api_run f cost_schedule cost_item nm ident = Inl (Raised e)
          \<longrightarrow> cost_schedule = None \<and> cost_item = None)
   \<and> (\<forall>item f'. \<not> (cost_schedule = None \<and> cost_item = None)
          \<longrightarrow> api_run f cost_schedule cost_item = Inr (item, f')
          \<longrightarrow> add_cost_item api_run f cost_schedule cost_item nm ident
               = Inr (item\<lparr> Name := (if nm \<noteq> [] then Some nm else Name item),
                            Identification :=
                              (if ident \<noteq> [] then Some ident else Identification item) \<rparr>,
                      f'))"
  by (auto simp: add_cost_item_def Let_def split: sum.splits)

theorem add_cost_item_missing_parent_witness:
  "add_cost_item example_api 7 None None ''Post'' ''01'' = Inl (Raised ValueError)
   \<and> add_cost_item example_api 7 (Some 1) None ''Post'' ''01''
       = Inr (\<lparr> entity_id = 7, Name = Some ''Post'', Identification = Some ''01'' \<rparr>, 8)"
proof -
  have a: "example_api 7 (Some 1) None
             = Inr (\<lparr> entity_id = 7, Name = None, Identification = None \<rparr>, 8)"
    by (simp add: example_api_def)
  show ?thesis
    using add_cost_item_missing_parent [of example_api 7 None None "''Post''" "''01''"]
      add_cost_item_missing_parent [of example_api 7 "Some 1" None "''Post''" "''01''"] a
    by simp
qed

section \<open>Properties of copy\<close>

lemma strip_fields:
  assumes "strip a = strip b"
  shows "children a = children b" "cost_value a = cost_value b"
    "data_of a cv = data_of b cv"
proof -
  obtain n1 h1 i1 s1 d1 t1 c1 ch1 p1 sc1 f1 m1 where
    a: "a = \<lparr>name = n1, html_name = h1, identification = i1, sfb_code = s1,
             description = d1, is_text_only = t1, cost_value = c1, children = ch1,
             parent = p1, schedule = sc1, ifc_cost_item = f1, \<dots> = m1\<rparr>"
    by (cases a)
  obtain n2 h2 i2 s2 d2 t2 c2 ch2 p2 sc2 f2 m2 where
    b: "b = \<lparr>name = n2, html_name = h2, identification = i2, sfb_code = s2,
             description = d2, is_text_only = t2, cost_value = c2, children = ch2,
             parent = p2, schedule = sc2, ifc_cost_item = f2, \<dots> = m2\<rparr>"
    by (cases b)
  from assms a b show "children a = children b" "cost_value a = cost_value b"
    "data_of a cv = data_of b cv"
    by (simp_all add: strip_def data_of_def)
qed

lemma trees_on_transfer_list:
  "trees_on P h rs ts
     \<Longrightarrow> (\<And>r t. t \<in> set ts \<Longrightarrow> tree_on P h r t \<Longrightarrow> tree_on Q h' r t)
     \<Longrightarrow> trees_on Q h' rs ts"
proof (induction rs arbitrary: ts)
  case Nil
  then show ?case by (cases ts) simp_all
next
  case (Cons r rs)
  then obtain t ts' where ts: "ts = t # ts'" by (cases ts) simp_all
  have 1: "tree_on P h r t" and 2: "trees_on P h rs ts'"
    using Cons.prems(1) ts by simp_all
  have "tree_on Q h' r t"
    using 1 ts by (intro Cons.prems(2)) simp_all
  moreover have "trees_on Q h' rs ts'"
    using 2 Cons.prems(2) ts by (intro Cons.IH) simp_all
  ultimately show ?case using ts by simp
qed

lemma tree_on_transfer:
  "tree_on P h r t
     \<Longrightarrow> (\<And>a. P a \<Longrightarrow> Q a \<and> map_option strip (item_store h' a) = map_option strip (item_store h a)
                    \<and> value_store h' a = value_store h a)
     \<Longrightarrow> tree_on Q h' r t"
proof (induction t arbitrary: r)
  case (Node d ts)
  from Node.prems(1) obtain it cv where
    it: "item_store h r = Some it" and cv: "value_store h (cost_value it) = Some cv"
    and pr: "P r" and pv: "P (cost_value it)" and d: "d = data_of it cv"
    and ts: "trees_on P h (children it) ts"
    by (auto split: option.splits)
  from Node.prems(2) [OF pr] it obtain it' where
    it': "item_store h' r = Some it'" and st: "strip it' = strip it" and qr: "Q r"
    by (cases "item_store h' r") auto
  have cv': "value_store h' (cost_value it) = Some cv" and qv: "Q (cost_value it)"
    using Node.prems(2) [OF pv] cv by simp_all
  have "trees_on Q h' (children it) ts"
    using ts
  proof (rule trees_on_transfer_list)
    fix r' t' assume "t' \<in> set ts" "tree_on P h r' t'"
    then show "tree_on Q h' r' t'"
      using Node.prems(2) by (intro Node.IH) simp_all
  qed
  then show ?case
    using it' cv' qr qv d strip_fields [OF st] by simp
qed

lemma trees_on_transfer:
  "trees_on P h rs ts
     \<Longrightarrow> (\<And>a. P a \<Longrightarrow> Q a \<and> map_option strip (item_store h' a) = map_option strip (item_store h a)
                    \<and> value_store h' a = value_store h a)
     \<Longrightarrow> trees_on Q h' rs ts"
  by (erule trees_on_transfer_list) (rule tree_on_transfer)

lemma tree_on_exists: "tree_on P h r t \<Longrightarrow> \<exists>it. item_store h r = Some it"
  by (cases t) (auto split: option.splits)

lemma add_child_effect:
  "item_store h p = Some pit \<Longrightarrow> item_store h c = Some cit \<Longrightarrow> p \<noteq> c
     \<Longrightarrow> add_child h p c
         = Inr (c, h\<lparr>item_store := (item_store h)
                       (c \<mapsto> cit\<lparr>parent := Some p, schedule := schedule pit\<rparr>,
                        p \<mapsto> pit\<lparr>children := children pit @ [c]\<rparr>)\<rparr>)"
  by (simp add: add_child_def upd_item_def schedule_of_def Let_def)

lemma copy_children_trees:
  assumes IH: "\<And>h r t. tree_on (\<lambda>a. a < k) h r t \<Longrightarrow> k \<le> next_ref h \<Longrightarrow> height t < n
                 \<Longrightarrow> \<exists>y h'. copy n h r = Inr (y, h') \<and> copied h h' y t"
  shows "trees_on (\<lambda>a. a < k) h cs ts \<Longrightarrow> (\<And>t. t \<in> set ts \<Longrightarrow> height t < n)
           \<Longrightarrow> k \<le> y \<Longrightarrow> y < next_ref h \<Longrightarrow> item_store h y = Some yi
           \<Longrightarrow> \<exists>h' new. copy_children n h y cs = Inr (y, h') \<and> grown y h h'
                 \<and> item_store h' y = Some (yi\<lparr>children := children yi @ new\<rparr>)
                 \<and> trees_on (\<lambda>a. next_ref h \<le> a \<and> a < next_ref h') h' new ts"
proof (induction cs arbitrary: h yi ts)
  case Nil
  then have ts: "ts = []" by (cases ts) simp_all
  have "copy_children n h y [] = Inr (y, h)" by simp
  moreover have "grown y h h" by (simp add: grown_def)
  moreover have "item_store h y = Some (yi\<lparr>children := children yi @ []\<rparr>)"
    using Nil.prems(5) by simp
  moreover have "trees_on (\<lambda>a. next_ref h \<le> a \<and> a < next_ref h) h [] ts"
    using ts by simp
  ultimately show ?case by blast
next
  case (Cons c cs)
  then obtain t ts' where ts: "ts = t # ts'" by (cases ts) simp_all
  have tc: "tree_on (\<lambda>a. a < k) h c t" and tcs: "trees_on (\<lambda>a. a < k) h cs ts'"
    using Cons.prems(1) ts by simp_all
  have ht: "height t < n" and hts: "\<And>t'. t' \<in> set ts' \<Longrightarrow> height t' < n"
    using Cons.prems(2) ts by simp_all
  have kn: "k \<le> next_ref h" using Cons.prems(3,4) by simp
  from IH [OF tc kn ht] obtain c' h1 where
    cp: "copy n h c = Inr (c', h1)" and c1: "copied h h1 c' t" by blast
  from c1 have lo: "next_ref h \<le> c'" and hi: "c' < next_ref h1"
    and sb: "same_below (next_ref h) h h1"
    and ss: "schedule_store h1 = schedule_store h"
    and tn: "tree_on (\<lambda>a. next_ref h \<le> a \<and> a < next_ref h1) h1 c' t"
    by (simp_all add: copied_def)
  have y1: "item_store h1 y = Some yi"
    using sb Cons.prems(4,5) by (simp add: same_below_def)
  obtain cit where cit: "item_store h1 c' = Some cit"
    using tree_on_exists [OF tn] by blast
  have ne: "y \<noteq> c'" using lo Cons.prems(4) by simp
  define h2 where
    "h2 = h1\<lparr>item_store := (item_store h1)
                (c' \<mapsto> cit\<lparr>parent := Some y, schedule := schedule yi\<rparr>,
                 y \<mapsto> yi\<lparr>children := children yi @ [c']\<rparr>)\<rparr>"
  have ac: "add_child h1 y c' = Inr (c', h2)"
    unfolding h2_def using y1 cit ne by (rule add_child_effect)
  have n2: "next_ref h2 = next_ref h1" by (simp add: h2_def)
  have n1: "next_ref h \<le> next_ref h1" using lo hi by simp
  have v2: "value_store h2 = value_store h1" and s2: "schedule_store h2 = schedule_store h1"
    by (simp_all add: h2_def)
  have i2: "\<And>a. a \<noteq> y \<Longrightarrow> a \<noteq> c' \<Longrightarrow> item_store h2 a = item_store h1 a"
    by (simp add: h2_def)
  have tcs2: "trees_on (\<lambda>a. a < k) h2 cs ts'"
    using tcs
  proof (rule trees_on_transfer)
    fix a assume a: "a < k"
    then have "a < next_ref h" "a \<noteq> y" "a \<noteq> c'"
      using Cons.prems(3,4) lo by simp_all
    then show "a < k \<and> map_option strip (item_store h2 a) = map_option strip (item_store h a)
                 \<and> value_store h2 a = value_store h a"
      using sb a i2 v2 by (simp add: same_below_def)
  qed
  have y2: "item_store h2 y = Some (yi\<lparr>children := children yi @ [c']\<rparr>)"
    by (simp add: h2_def)
  have yn2: "y < next_ref h2" using Cons.prems(4) n1 n2 by simp
  from Cons.IH [OF tcs2 hts Cons.prems(3) yn2 y2] obtain h' new where
    cc: "copy_children n h2 y cs = Inr (y, h')" and g: "grown y h2 h'"
    and yi': "item_store h' y
                = Some (yi\<lparr>children := children yi @ [c']\<rparr>
                          \<lparr>children := children (yi\<lparr>children := children yi @ [c']\<rparr>) @ new\<rparr>)"
    and tn': "trees_on (\<lambda>a. next_ref h2 \<le> a \<and> a < next_ref h') h' new ts'"
    by blast
  have n3: "next_ref h2 \<le> next_ref h'" using g by (simp add: grown_def)
  have gv: "\<And>a. a < next_ref h2 \<Longrightarrow> value_store h' a = value_store h2 a"
    and gi: "\<And>a. a < next_ref h2 \<Longrightarrow> a \<noteq> y \<Longrightarrow> item_store h' a = item_store h2 a"
    and gs: "schedule_store h' = schedule_store h2"
    using g by (simp_all add: grown_def)
  have r1: "copy_children n h y (c # cs) = Inr (y, h')"
    using cp ac cc by simp
  have r2: "grown y h h'"
    unfolding grown_def
  proof (intro conjI allI impI)
    show "next_ref h \<le> next_ref h'" using n1 n2 n3 by simp
    show "schedule_store h' = schedule_store h" using gs s2 ss by simp
  next
    fix a assume a: "a < next_ref h"
    then have "a < next_ref h2" using n1 n2 by simp
    then show "value_store h' a = value_store h a"
      using gv v2 sb a by (simp add: same_below_def)
  next
    fix a assume a: "a < next_ref h" and ay: "a \<noteq> y"
    then have "a < next_ref h2" "a \<noteq> c'" using n1 n2 lo by simp_all
    then show "item_store h' a = item_store h a"
      using gi i2 ay sb a by (simp add: same_below_def)
  qed
  have r3: "item_store h' y = Some (yi\<lparr>children := children yi @ (c' # new)\<rparr>)"
    using yi' by simp
  have t1: "tree_on (\<lambda>a. next_ref h \<le> a \<and> a < next_ref h') h' c' t"
    using tn
  proof (rule tree_on_transfer)
    fix a assume a: "next_ref h \<le> a \<and> a < next_ref h1"
    then have ay: "a \<noteq> y" and a2: "a < next_ref h2"
      using Cons.prems(4) n2 by simp_all
    have "map_option strip (item_store h2 a) = map_option strip (item_store h1 a)"
    proof (cases "a = c'")
      case True
      then show ?thesis using cit ne by (simp add: h2_def strip_def)
    next
      case False
      then show ?thesis using i2 ay by simp
    qed
    then show "(next_ref h \<le> a \<and> a < next_ref h')
                 \<and> map_option strip (item_store h' a) = map_option strip (item_store h1 a)
                 \<and> value_store h' a = value_store h1 a"
      using a a2 ay gi gv v2 n2 n3 by simp
  qed
  have t2: "trees_on (\<lambda>a. next_ref h \<le> a \<and> a < next_ref h') h' new ts'"
    using tn'
  proof (rule trees_on_transfer)
    fix a assume "next_ref h2 \<le> a \<and> a < next_ref h'"
    then show "(next_ref h \<le> a \<and> a < next_ref h')
                 \<and> map_option strip (item_store h' a) = map_option strip (item_store h' a)
                 \<and> value_store h' a = value_store h' a"
      using n1 n2 by simp
  qed
  have r4: "trees_on (\<lambda>a. next_ref h \<le> a \<and> a < next_ref h') h' (c' # new) ts"
    using t1 t2 ts by simp
  show ?case using r1 r2 r3 r4 by blast
qed

lemma copy_tree:
  "tree_on (\<lambda>a. a < k) h r t \<Longrightarrow> k \<le> next_ref h \<Longrightarrow> height t < n
     \<Longrightarrow> \<exists>y h'. copy n h r = Inr (y, h') \<and> copied h h' y t"
proof (induction n arbitrary: h r t)
  case 0
  then show ?case by simp
next
  case (Suc n)
  obtain d ts where t: "t = Node d ts" by (cases t)
  from Suc.prems(1) t obtain it cv where
    it: "item_store h r = Some it" and cv: "value_store h (cost_value it) = Some cv"
    and d: "d = data_of it cv" and ts: "trees_on (\<lambda>a. a < k) h (children it) ts"
    by (auto split: option.splits)
  have hts: "\<And>t'. t' \<in> set ts \<Longrightarrow> height t' < n"
    using Suc.prems(3) t height_sub [of _ ts d] by fastforce
  define v where "v = next_ref h"
  define y where "y = Suc (next_ref h)"
  define cv0 where
    "cv0 = \<lparr> unit_price = unit_price cv, quantity = quantity cv,
             quantity_type = quantity_type cv, category = [],
             value_description = [], ifc_cost_value = None, ifc_quantity = None \<rparr>"
  define it0 where
    "it0 = \<lparr> name = name it, html_name = html_name it,
             identification = identification it, sfb_code = sfb_code it,
             description = description it, is_text_only = is_text_only it,
             cost_value = v, children = [], parent = None, schedule = None,
             ifc_cost_item = None \<rparr>"
  define h2 where "h2 = snd (new_CostItem (snd (new_CostValue h cv0)) it0)"
  have i2: "item_store h2 = (item_store h)(y \<mapsto> it0)"
    and v2: "value_store h2 = (value_store h)(v \<mapsto> cv0)"
    and s2: "schedule_store h2 = schedule_store h"
    and n2: "next_ref h2 = Suc (Suc (next_ref h))"
    by (simp_all add: h2_def new_CostItem_def new_CostValue_def it0_def y_def v_def Let_def)
  have cpy: "copy (Suc n) h r = copy_children n h2 y (children it)"
    using it cv
    by (simp add: h2_def new_CostItem_def new_CostValue_def it0_def cv0_def y_def v_def Let_def)
  have ts2: "trees_on (\<lambda>a. a < k) h2 (children it) ts"
    using ts
  proof (rule trees_on_transfer)
    fix a assume a: "a < k"
    then have "a \<noteq> y" "a \<noteq> v" using Suc.prems(2) by (simp_all add: y_def v_def)
    then show "a < k \<and> map_option strip (item_store h2 a) = map_option strip (item_store h a)
                 \<and> value_store h2 a = value_store h a"
      using a i2 v2 by simp
  qed
  have ky: "k \<le> y" using Suc.prems(2) by (simp add: y_def)
  have yn: "y < next_ref h2" by (simp add: n2 y_def)
  have y2: "item_store h2 y = Some it0" by (simp add: i2)
  from copy_children_trees [of k n h2 "children it" ts y it0, OF Suc.IH ts2 hts ky yn y2]
  obtain h' new where
    cc: "copy_children n h2 y (children it) = Inr (y, h')" and g: "grown y h2 h'"
    and yi': "item_store h' y = Some (it0\<lparr>children := children it0 @ new\<rparr>)"
    and tn': "trees_on (\<lambda>a. next_ref h2 \<le> a \<and> a < next_ref h') h' new ts"
    by blast
  have n3: "next_ref h2 \<le> next_ref h'" using g by (simp add: grown_def)
  have gv: "\<And>a. a < next_ref h2 \<Longrightarrow> value_store h' a = value_store h2 a"
    and gi: "\<And>a. a < next_ref h2 \<Longrightarrow> a \<noteq> y \<Longrightarrow> item_store h' a = item_store h2 a"
    and gs: "schedule_store h' = schedule_store h2"
    using g by (simp_all add: grown_def)
  have sb: "same_below (next_ref h) h h'"
    unfolding same_below_def
  proof (intro allI impI)
    fix a assume a: "a < next_ref h"
    then have "a < next_ref h2" "a \<noteq> y" "a \<noteq> v" by (simp_all add: n2 y_def v_def)
    then show "item_store h' a = item_store h a \<and> value_store h' a = value_store h a"
      using gi gv i2 v2 by simp
  qed
  have vv: "value_store h' v = Some cv0"
    using gv [of v] v2 by (simp add: n2 v_def)
  have tnew: "trees_on (\<lambda>a. next_ref h \<le> a \<and> a < next_ref h') h' new ts"
    using tn'
  proof (rule trees_on_transfer)
    fix a assume "next_ref h2 \<le> a \<and> a < next_ref h'"
    then show "(next_ref h \<le> a \<and> a < next_ref h')
                 \<and> map_option strip (item_store h' a) = map_option strip (item_store h' a)
                 \<and> value_store h' a = value_store h' a"
      using n2 by simp
  qed
  have dd: "d = data_of (it0\<lparr>children := children it0 @ new\<rparr>) cv0"
    using d by (simp add: data_of_def it0_def cv0_def)
  have ty: "tree_on (\<lambda>a. next_ref h \<le> a \<and> a < next_ref h') h' y (Node d ts)"
    using yi' vv tnew dd n3 n2
    by (simp add: it0_def y_def v_def)
  have "copied h h' y t"
    unfolding copied_def
    using sb ty t yi' n3 n2 gs s2
    by (simp add: y_def parent_of_def schedule_of_def it0_def)
  then show ?case using cpy cc by simp
qed

lemma subtotal_same_below:
  assumes t: "tree_on (\<lambda>a. a < k) h x t" and hn: "height t < n"
    and sb: "same_below k h h''"
  shows "subtotal n h'' x = Inr (spec_subtotal t)"
proof -
  have "tree_on (\<lambda>a. True) h'' x t"
    using t
  proof (rule tree_on_transfer)
    fix a assume "a < k"
    then show "True \<and> map_option strip (item_store h'' a) = map_option strip (item_store h a)
                 \<and> value_store h'' a = value_store h a"
      using sb by (simp add: same_below_def)
  qed
  then show ?thesis using hn by (rule subtotal_tree)
qed

lemma same_below_set_unit_price:
  assumes sb: "same_below k h h'" and t: "tree_on (\<lambda>a. k \<le> a) h' y t"
  shows "same_below k h (set_unit_price h' y v)"
proof -
  obtain d ts where "t = Node d ts" by (cases t)
  with t obtain it cv where "item_store h' y = Some it"
    "value_store h' (cost_value it) = Some cv" "k \<le> cost_value it"
    by (auto split: option.splits)
  then show ?thesis
    using sb by (auto simp: same_below_def set_unit_price_def)
qed

text \<open>
  C5.  For an item \<open>x\<close> that is a finite tree \<open>t\<close> of allocated objects, \<open>copy\<close> returns a
  new item \<open>y\<close> without parent and schedule that is the same tree \<open>t\<close> (the same name,
  codes, description, text-only flag, unit price, quantity and quantity type at every
  node, the same children in the same order), made of new objects only; \<open>x\<close> is the
  tree it was; the two subtotals are equal; and the subtotal of \<open>x\<close> stays what it was
  when the unit price of \<open>y\<close> is set, and under any change to objects created after the
  call started.
\<close>

theorem copy_independent:
  "tree_on (\<lambda>a. a < next_ref h) h x t \<Longrightarrow> height t < n
     \<Longrightarrow> \<exists>y h'. copy n h x = Inr (y, h')
           \<and> next_ref h \<le> y \<and> parent_of h' y = None \<and> schedule_of h' y = None
           \<and> tree_on (\<lambda>a. next_ref h \<le> a) h' y t
           \<and> tree_at h' x t
           \<and> subtotal n h' y = subtotal n h x
           \<and> (\<forall>v. subtotal n (set_unit_price h' y v) x = subtotal n h x)
           \<and> (\<forall>h''. same_below (next_ref h) h h'' \<longrightarrow> subtotal n h'' x = subtotal n h x)"
proof -
  assume t: "tree_on (\<lambda>a. a < next_ref h) h x t" and hn: "height t < n"
  from copy_tree [OF t _ hn] obtain y h' where
    c: "copy n h x = Inr (y, h')" and cp: "copied h h' y t" by auto
  from cp have lo: "next_ref h \<le> y" and sb: "same_below (next_ref h) h h'"
    and ty: "tree_on (\<lambda>a. next_ref h \<le> a \<and> a < next_ref h') h' y t"
    and p: "parent_of h' y = None" and s: "schedule_of h' y = None"
    by (simp_all add: copied_def)
  have ty': "tree_on (\<lambda>a. next_ref h \<le> a) h' y t"
    using ty by (rule tree_on_transfer) simp
  have tx': "tree_at h' x t"
    unfolding tree_at_def using t
  proof (rule tree_on_transfer)
    fix a assume "a < next_ref h"
    then show "True \<and> map_option strip (item_store h' a) = map_option strip (item_store h a)
                 \<and> value_store h' a = value_store h a"
      using sb by (simp add: same_below_def)
  qed
  have sx: "subtotal n h x = Inr (spec_subtotal t)"
    using t hn by (rule subtotal_tree)
  have sy: "subtotal n h' y = Inr (spec_subtotal t)"
    using ty hn by (rule subtotal_tree)
  have any: "subtotal n h'' x = subtotal n h x" if "same_below (next_ref h) h h''" for h''
    using subtotal_same_below [OF t hn that] sx by simp
  have mut: "subtotal n (set_unit_price h' y v) x = subtotal n h x" for v
    using same_below_set_unit_price [OF sb ty'] by (rule any)
  show ?thesis
    using c lo p s ty' tx' sx sy any mut by auto
qed

lemma copy_leaf_example: "copy 2 scenario_heap 4 = Inr (8, leaf_copy_heap)"
  by (simp add: scenario_heap_def leaf_copy_heap_def mk_item_def mk_value_def
      new_CostValue_def new_CostItem_def Let_def eval_nat_numeral)

theorem copy_independent_witness:
  "tree_on (\<lambda>a. a < next_ref scenario_heap) scenario_heap 4
     (Node (mk_data ''Ontgraven'' ''01.01'' False 12.5 85 VOLUME) [])
   \<and> copy 2 scenario_heap 4 = Inr (8, leaf_copy_heap)
   \<and> parent_of leaf_copy_heap 8 = None \<and> schedule_of leaf_copy_heap 8 = None
   \<and> subtotal 2 scenario_heap 4 = Inr 1062.5
   \<and> subtotal 2 leaf_copy_heap 8 = Inr 1062.5
   \<and> subtotal 2 (set_unit_price leaf_copy_heap 8 999) 8 = Inr 84915
   \<and> subtotal 2 (set_unit_price leaf_copy_heap 8 999) 4 = Inr 1062.5"
proof -
  have t: "tree_on (\<lambda>a. a < next_ref scenario_heap) scenario_heap 4
             (Node (mk_data ''Ontgraven'' ''01.01'' False 12.5 85 VOLUME) [])"
    by (simp add: example_defs)
  have hn: "height (Node (mk_data ''Ontgraven'' ''01.01'' False 12.5 85 VOLUME) []) < 2"
    by simp
  have sx: "subtotal 2 scenario_heap 4 = Inr 1062.5"
    by (simp add: scenario_heap_def mk_item_def mk_value_def CostValue_total_def
        eval_nat_numeral)
  have sm: "subtotal 2 (set_unit_price leaf_copy_heap 8 999) 8 = Inr 84915"
    by (simp add: leaf_copy_heap_def set_unit_price_def mk_item_def mk_value_def
        CostValue_total_def eval_nat_numeral)
  from copy_independent [OF t hn] copy_leaf_example
  have "parent_of leaf_copy_heap 8 = None \<and> schedule_of leaf_copy_heap 8 = None
        \<and> subtotal 2 leaf_copy_heap 8 = subtotal 2 scenario_heap 4
        \<and> subtotal 2 (set_unit_price leaf_copy_heap 8 999) 4 = subtotal 2 scenario_heap 4"
    by auto
  then show ?thesis
    using t sx sm copy_leaf_example by simp
qed

section \<open>The example stores are reachable\<close>

text \<open>
  The stores of the examples below are what constructor calls and \<open>add_child\<close> build
  from the empty store.
\<close>

lemma dup_heap_built:
  "\<exists>h1 h2 h3 h4 h5 h6.
     new_item empty_heap ''Hoofdstuk'' [] = (1, h1)
     \<and> new_item h1 ''Nieuwe post'' [] = (3, h2)
     \<and> new_item h2 ''Andere post'' [] = (5, h3)
     \<and> new_item h3 ''Nieuwe post'' [] = (7, h4)
     \<and> add_child h4 1 3 = Inr (3, h5)
     \<and> add_child h5 1 5 = Inr (5, h6)
     \<and> add_child h6 1 7 = Inr (7, dup_heap)"
  apply (simp add: new_item_def new_CostValue_def new_CostItem_def empty_heap_def Let_def
      mk_item_def add_child_def upd_item_def schedule_of_def dup_heap_def)
  apply (auto simp: fun_eq_iff)
  done

lemma base_heap_built:
  "\<exists>h1 h2 h3 h4.
     new_item empty_heap ''Hoofdstuk'' [] = (1, h1)
     \<and> new_item h1 ''Paragraaf'' [] = (3, h2)
     \<and> new_item h2 ''Post'' [] = (5, h3)
     \<and> add_child h3 3 5 = Inr (5, h4)
     \<and> add_child h4 1 3 = Inr (3, base_heap)"
  apply (simp add: new_item_def new_CostValue_def new_CostItem_def empty_heap_def Let_def
      mk_item_def add_child_def upd_item_def schedule_of_def base_heap_def)
  apply (auto simp: fun_eq_iff)
  done

lemma nested_heap_built:
  "\<exists>h1 h2 h3.
     new_CostSchedule n empty_heap (mk_schedule ''Begroting'' [] 21) = Inr (0, h1)
     \<and> new_item h1 ''Hoofdstuk'' ''01'' = (2, h2)
     \<and> new_item h2 ''Post'' ''01.01'' = (4, h3)
     \<and> add_child h3 2 4 = Inr (4, nested_heap)"
  apply (simp add: new_item_def new_CostValue_def new_CostItem_def new_CostSchedule_def
      empty_heap_def Let_def mk_item_def mk_schedule_def add_child_def upd_item_def
      schedule_of_def nested_heap_def)
  apply (auto simp: fun_eq_iff)
  done

section \<open>Where attaching, detaching and moving go wrong\<close>

text \<open>
  The stores of the examples are what the calls of the model produce: copying the
  paragraph of \<open>base_heap\<close> gives \<open>twin_heap\<close>, and attaching the copy gives
  \<open>twin_attached\<close>.  Comparing the paragraph with its copy never ends: the two are
  equal up to their children, the children are equal up to their parents, and the
  parents are the paragraph and its copy again.
\<close>

lemma copy_twin: "copy (Suc (Suc n)) base_heap 3 = Inr (7, twin_heap)"
  apply (simp add: base_heap_def twin_heap_def mk_item_def mk_value_def new_CostValue_def
      new_CostItem_def add_child_def upd_item_def schedule_of_def Let_def)
  apply (auto simp: fun_eq_iff)
  done

lemma add_twin: "add_child twin_heap 1 7 = Inr (7, twin_attached)"
  apply (simp add: twin_attached_def twin_heap_def mk_item_def mk_value_def
      add_child_def upd_item_def schedule_of_def Let_def)
  apply (auto simp: fun_eq_iff)
  done

lemma twin_attached_diverges:
  "item_eq n twin_attached 3 7 = Inl RecursionError
   \<and> item_eq n twin_attached 5 9 = Inl RecursionError"
  by (induction n) (simp_all add: twin_attached_def mk_item_def mk_value_def value_eq_def)

lemma twin_diverges:
  "item_eq n twin_heap 3 7 = Inl RecursionError
   \<and> item_eq n twin_heap 5 9 = Inl RecursionError"
  by (induction n) (simp_all add: twin_heap_def mk_item_def mk_value_def value_eq_def)

text \<open>
  C4 at the store \<open>twin_heap\<close>: the copy (item 7) is detached and is attached to the
  chapter (item 1) by \<open>add_child\<close>; \<open>remove_child\<close> of it then raises
  \<open>RecursionError\<close> with every depth budget, because \<^verbatim>\<open>child in self.children\<close> first
  compares the paragraph (item 3) with its copy.
\<close>

theorem attach_detach_recursion_error:
  "add_child twin_heap 1 7 = Inr (7, twin_attached)
   \<and> children_of twin_attached 1 = [3, 7]
   \<and> remove_child n twin_attached 1 7 = Inl RecursionError"
proof -
  have "rich_eq n twin_attached 3 7 = Inl RecursionError"
    using twin_attached_diverges [of n] by (simp add: rich_eq_def)
  then have "remove_child n twin_attached 1 7 = Inl RecursionError"
    by (simp add: remove_child_def children_of_def twin_attached_def mk_item_def)
  moreover have "children_of twin_attached 1 = [3, 7]"
    by (simp add: children_of_def twin_attached_def mk_item_def)
  ultimately show ?thesis using add_twin by simp
qed

text \<open>
  C6 at the store \<open>dup_heap\<close>: item 7 is the last child, and \<open>move_down\<close> of it returns
  true and leaves the children 5, 7, 7, because \<^verbatim>\<open>index\<close> and \<^verbatim>\<open>remove\<close> find the equal item 3
  first.  And at the store \<open>twin_heap\<close>: item 7 is no child of item 1, and
  \<open>remove_child\<close> raises \<open>RecursionError\<close> with every depth budget.
\<close>

theorem invalid_operations_misbehave:
  "children_of dup_heap 1 = [3, 5, 7]
   \<and> (\<exists>h'. move_down (Suc n) dup_heap 7 = Inr (True, h') \<and> children_of h' 1 = [5, 7, 7])
   \<and> children_of twin_heap 1 = [3]
   \<and> remove_child n twin_heap 1 7 = Inl RecursionError"
proof -
  have c: "children_of dup_heap 1 = [3, 5, 7]"
    by (simp add: children_of_def dup_heap_def mk_item_def)
  have e: "rich_eq (Suc n) dup_heap 3 7 = Inr True"
    by (simp add: rich_eq_def dup_heap_def mk_item_def mk_value_def value_eq_def)
  have i: "get_child_index (Suc n) dup_heap 1 7 = Inr 0"
    using e c by (simp add: get_child_index_def)
  have r: "list_remove (Suc n) dup_heap [3, 5, 7] 7 = Inr [5, 7]"
    using e by (simp add: list_remove_def)
  have s: "item_store dup_heap 7 = Some (mk_item ''Nieuwe post'' [] False 6 [] (Some 1) None)"
    by (simp add: dup_heap_def)
  have mv: "move_down (Suc n) dup_heap 7
              = Inr (True, upd_item dup_heap 1 (\<lambda>q. q\<lparr>children := [5, 7, 7]\<rparr>))"
    using s i r c by (simp add: move_down_def list_insert_def mk_item_def)
  have "children_of (upd_item dup_heap 1 (\<lambda>q. q\<lparr>children := [5, 7, 7]\<rparr>)) 1 = [5, 7, 7]"
    by (simp add: upd_item_def children_of_def dup_heap_def)
  with mv
  have m: "\<exists>h'. move_down (Suc n) dup_heap 7 = Inr (True, h') \<and> children_of h' 1 = [5, 7, 7]"
    by simp
  have t: "children_of twin_heap 1 = [3]"
    by (simp add: children_of_def twin_heap_def mk_item_def)
  have "rich_eq n twin_heap 3 7 = Inl RecursionError"
    using twin_diverges [of n] by (simp add: rich_eq_def)
  then have d: "remove_child n twin_heap 1 7 = Inl RecursionError"
    using t by (simp add: remove_child_def) (simp add: twin_heap_def)
  show ?thesis using c m t d by simp
qed

text \<open>
  The constructor of a schedule does set the schedule on every item below its root
  items: created around the chapter of \<open>base_heap\<close>, the new schedule (address 6) is
  the schedule of the chapter, of its paragraph and of the paragraph's row.
\<close>

lemma constructor_sets_schedule_below:
  "\<exists>h'. new_CostSchedule (Suc (Suc (Suc n))) base_heap (mk_schedule ''Begroting'' [1] 21)
          = Inr (6, h')
      \<and> items_of h' 6 = [1]
      \<and> schedule_of h' 1 = Some 6 \<and> schedule_of h' 3 = Some 6 \<and> schedule_of h' 5 = Some 6"
  by (simp add: new_CostSchedule_def base_heap_def mk_schedule_def mk_item_def upd_item_def
      items_of_def schedule_of_def Let_def)

text \<open>
  C3 at the store \<open>nested_heap\<close>: after \<open>add_item\<close> of the chapter (item 2) its row
  (item 4) is reachable from the schedule and has no schedule.  And at the store
  \<open>scenario_heap\<close>, where every item has the schedule: after \<open>remove_item\<close> of the
  chapter its rows still have it.
\<close>

theorem schedule_not_transitive:
  "(\<exists>h'. add_item nested_heap 0 2 = Inr (2, h')
        \<and> items_of h' 0 = [2] \<and> children_of h' 2 = [4]
        \<and> schedule_of h' 2 = Some 0 \<and> schedule_of h' 4 = None)
   \<and> (\<exists>h'. remove_item n scenario_heap 0 2 = Inr (True, h')
        \<and> items_of h' 0 = [] \<and> children_of h' 2 = [4, 6]
        \<and> schedule_of h' 2 = None \<and> schedule_of h' 4 = Some 0)"
proof -
  have a: "\<exists>h'. add_item nested_heap 0 2 = Inr (2, h')
        \<and> items_of h' 0 = [2] \<and> children_of h' 2 = [4]
        \<and> schedule_of h' 2 = Some 0 \<and> schedule_of h' 4 = None"
    by (simp add: add_item_def nested_heap_def mk_item_def mk_schedule_def upd_item_def
        upd_schedule_def items_of_def children_of_def schedule_of_def Let_def)
  have r: "\<exists>h'. remove_item n scenario_heap 0 2 = Inr (True, h')
        \<and> items_of h' 0 = [] \<and> children_of h' 2 = [4, 6]
        \<and> schedule_of h' 2 = None \<and> schedule_of h' 4 = Some 0"
    by (simp add: remove_item_def scenario_heap_def mk_item_def mk_schedule_def upd_item_def
        upd_schedule_def items_of_def children_of_def schedule_of_def Let_def rich_eq_def
        list_remove_def)
  show ?thesis using a r by simp
qed

section \<open>Where detaching and moving are right\<close>

lemma list_index_last:
  "(\<And>e. e \<in> set es \<Longrightarrow> rich_eq n h e x = Inr False)
     \<Longrightarrow> list_index n h (es @ [x]) x = Inr (length es)"
  by (induction es) (simp_all add: rich_eq_def)

lemma list_contains_last:
  "(\<And>e. e \<in> set es \<Longrightarrow> rich_eq n h e x = Inr False)
     \<Longrightarrow> list_contains n h (es @ [x]) x = Inr True"
  by (induction es) (simp_all add: rich_eq_def)

text \<open>
  The boundaries of \<open>move_up\<close> and \<open>move_down\<close> that hold: an item without parent is
  not moved by either; the item at the first position is not moved up; and the item
  at the last position is not moved down when no sibling before it compares equal to
  it.  In each case the call returns false and the store is the one it was given.
\<close>

theorem move_boundaries:
  "(item_store h x = Some it \<and> parent it = None
      \<longrightarrow> move_up n h x = Inr (False, h) \<and> move_down n h x = Inr (False, h))
   \<and> (item_store h x = Some it \<and> parent it = Some p \<and> children_of h p = x # cs
      \<longrightarrow> move_up n h x = Inr (False, h))
   \<and> (item_store h x = Some it \<and> parent it = Some p \<and> children_of h p = es @ [x]
        \<and> (\<forall>e\<in>set es. rich_eq n h e x = Inr False)
      \<longrightarrow> move_down n h x = Inr (False, h))"
proof (intro conjI impI)
  assume "item_store h x = Some it \<and> parent it = None"
  then show "move_up n h x = Inr (False, h)" "move_down n h x = Inr (False, h)"
    by (simp_all add: move_up_def move_down_def)
next
  assume a: "item_store h x = Some it \<and> parent it = Some p \<and> children_of h p = x # cs"
  then have "get_child_index n h p x = Inr 0"
    by (simp add: get_child_index_def rich_eq_def)
  then show "move_up n h x = Inr (False, h)"
    using a by (simp add: move_up_def)
next
  assume a: "item_store h x = Some it \<and> parent it = Some p \<and> children_of h p = es @ [x]
        \<and> (\<forall>e\<in>set es. rich_eq n h e x = Inr False)"
  then have "list_index n h (es @ [x]) x = Inr (length es)"
    by (intro list_index_last) simp
  then have "get_child_index n h p x = Inr (int (length es))"
    using a by (simp add: get_child_index_def)
  then show "move_down n h x = Inr (False, h)"
    using a by (simp add: move_down_def)
qed

theorem move_boundaries_witness:
  "move_up 3 scenario_heap 2 = Inr (False, scenario_heap)
   \<and> move_down 3 scenario_heap 2 = Inr (False, scenario_heap)
   \<and> move_up 3 scenario_heap 4 = Inr (False, scenario_heap)
   \<and> move_down 3 scenario_heap 6 = Inr (False, scenario_heap)"
proof -
  have i2: "item_store scenario_heap 2 = Some (mk_item ''Grondwerk'' ''01'' False 1 [4, 6] None (Some 0))"
    and i4: "item_store scenario_heap 4 = Some (mk_item ''Ontgraven'' ''01.01'' False 3 [] (Some 2) (Some 0))"
    and i6: "item_store scenario_heap 6 = Some (mk_item ''Opmerking'' [] True 5 [] (Some 2) (Some 0))"
    by (simp_all add: scenario_heap_def)
  have c: "children_of scenario_heap 2 = 4 # [6]" "children_of scenario_heap 2 = [4] @ [6]"
    by (simp_all add: children_of_def scenario_heap_def mk_item_def)
  have e: "\<forall>e\<in>set [4]. rich_eq 3 scenario_heap e 6 = Inr False"
    by (simp add: rich_eq_def scenario_heap_def mk_item_def eval_nat_numeral)
  have p: "parent (mk_item ''Grondwerk'' ''01'' False 1 [4, 6] None (Some 0)) = None"
    "parent (mk_item ''Ontgraven'' ''01.01'' False 3 [] (Some 2) (Some 0)) = Some 2"
    "parent (mk_item ''Opmerking'' [] True 5 [] (Some 2) (Some 0)) = Some 2"
    by (simp_all add: mk_item_def)
  show ?thesis
    using move_boundaries [where h = scenario_heap and x = 2 and n = 3]
      move_boundaries [where h = scenario_heap and x = 4 and n = 3 and p = 2 and cs = "[6]"]
      move_boundaries [where h = scenario_heap and x = 6 and n = 3 and p = 2 and es = "[4]"]
      i2 i4 i6 c e p
    by simp
qed

lemma name_differs:
  "item_store h e = Some eit \<Longrightarrow> item_store h x = Some xit \<Longrightarrow> name eit \<noteq> name xit
     \<Longrightarrow> e \<noteq> x \<Longrightarrow> rich_eq (Suc n) h e x = Inr False"
  by (simp add: rich_eq_def)

text \<open>
  The round trip of C4 where it holds: when the detached item \<open>x\<close> differs in its name
  from every child the parent already has, \<open>add_child\<close> followed by \<open>remove_child\<close>
  returns true and gives back the very store the two calls started from, so \<open>x\<close> is
  detached again, the children are the ones before, and every subtotal is what it was.
\<close>

theorem attach_detach_distinct_names:
  assumes p: "item_store h p = Some pit" and x: "item_store h x = Some xit"
    and px: "p \<noteq> x" and det: "parent xit = None \<and> schedule xit = None"
    and others: "\<forall>e\<in>set (children pit).
                   e \<noteq> x \<and> (\<exists>eit. item_store h e = Some eit \<and> name eit \<noteq> name xit)"
  shows "\<exists>h1. add_child h p x = Inr (x, h1)
           \<and> children_of h1 p = children pit @ [x]
           \<and> parent_of h1 x = Some p \<and> schedule_of h1 x = schedule pit
           \<and> remove_child (Suc n) h1 p x = Inr (True, h)"
proof -
  define h1 where
    "h1 = h\<lparr>item_store := (item_store h)
              (x \<mapsto> xit\<lparr>parent := Some p, schedule := schedule pit\<rparr>,
               p \<mapsto> pit\<lparr>children := children pit @ [x]\<rparr>)\<rparr>"
  define h2 where
    "h2 = h\<lparr>item_store := (item_store h)(p \<mapsto> pit\<lparr>children := children pit @ [x]\<rparr>)\<rparr>"
  have a: "add_child h p x = Inr (x, h1)"
    using p x px by (simp add: add_child_def upd_item_def schedule_of_def Let_def h1_def)
  have c1: "children_of h1 p = children pit @ [x]"
    by (simp add: h1_def children_of_def)
  have p1: "parent_of h1 x = Some p" "schedule_of h1 x = schedule pit"
    using px by (simp_all add: h1_def parent_of_def schedule_of_def)
  have xx: "xit\<lparr>parent := None, schedule := None\<rparr> = xit"
    using det by simp
  have u: "upd_item (upd_item h1 x (\<lambda>c. c\<lparr>parent := None\<rparr>)) x (\<lambda>c. c\<lparr>schedule := None\<rparr>) = h2"
    using px x xx
    by (simp add: h1_def h2_def upd_item_def fun_upd_twist map_upd_triv)
  have c2: "children_of h2 p = children pit @ [x]"
    by (simp add: h2_def children_of_def)
  have ne1: "rich_eq (Suc n) h1 e x = Inr False" if "e \<in> set (children pit)" for e
  proof -
    from others that obtain eit where "e \<noteq> x" "item_store h e = Some eit" "name eit \<noteq> name xit"
      by blast
    then show ?thesis
      using p px by (intro name_differs [where eit = "the (item_store h1 e)"
            and xit = "xit\<lparr>parent := Some p, schedule := schedule pit\<rparr>"])
        (auto simp: h1_def)
  qed
  have ne2: "rich_eq (Suc n) h2 e x = Inr False" if "e \<in> set (children pit)" for e
  proof -
    from others that obtain eit where "e \<noteq> x" "item_store h e = Some eit" "name eit \<noteq> name xit"
      by blast
    then show ?thesis
      using p x px by (intro name_differs [where eit = "the (item_store h2 e)" and xit = xit])
        (auto simp: h2_def)
  qed
  have l1: "list_contains (Suc n) h1 (children pit @ [x]) x = Inr True"
    using ne1 by (rule list_contains_last)
  have l2: "list_remove (Suc n) h2 (children pit @ [x]) x = Inr (children pit)"
    using list_index_last [of "children pit" "Suc n" h2 x] ne2 by (simp add: list_remove_def)
  have restore: "upd_item h2 p (\<lambda>s. s\<lparr>children := children pit\<rparr>) = h"
    using p by (simp add: h2_def upd_item_def map_upd_triv)
  have "item_store h1 p \<noteq> None" "item_store h1 x \<noteq> None"
    by (simp_all add: h1_def)
  then have r: "remove_child (Suc n) h1 p x = Inr (True, h)"
    using l1 c1 u l2 c2 restore by (simp add: remove_child_def Let_def)
  show ?thesis using a c1 p1 r by blast
qed

theorem attach_detach_distinct_names_witness:
  "\<exists>h1. add_child twin_heap 3 7 = Inr (7, h1)
      \<and> children_of h1 3 = [5, 7] \<and> parent_of h1 7 = Some 3
      \<and> remove_child 1 h1 3 7 = Inr (True, twin_heap)"
proof -
  have p: "item_store twin_heap 3 = Some (mk_item ''Paragraaf'' [] False 2 [5] (Some 1) None)"
    and x: "item_store twin_heap 7 = Some (mk_item ''Paragraaf'' [] False 6 [9] None None)"
    by (simp_all add: twin_heap_def)
  have px: "(3::nat) \<noteq> 7" by simp
  have det: "parent (mk_item ''Paragraaf'' [] False 6 [9] None None) = None
             \<and> schedule (mk_item ''Paragraaf'' [] False 6 [9] None None) = None"
    by (simp add: mk_item_def)
  have others: "\<forall>e\<in>set (children (mk_item ''Paragraaf'' [] False 2 [5] (Some 1) None)).
                  e \<noteq> 7 \<and> (\<exists>eit. item_store twin_heap e = Some eit
                       \<and> name eit \<noteq> name (mk_item ''Paragraaf'' [] False 6 [9] None None))"
    by (simp add: mk_item_def twin_heap_def)
  show ?thesis
    using attach_detach_distinct_names [OF p x px det others, of 0]
    by (auto simp: mk_item_def)
qed

end
